theory Spec2Isabelle
  imports Main
begin

section \<open>JavaScript values as the handler sees them\<close>

text \<open>
  The handler of \<^verbatim>\<open>POST /api/fns/verify-inn\<close> works on values produced by a JSON
  parser: the \<^verbatim>\<open>inn\<close> property of the request body and the body of the provider's
  answer. \<open>JUndefined\<close> is what reading a missing property gives. \<open>JNum\<close> holds the
  integer-valued numbers (below \<open>10^21\<close> in magnitude their text is the decimal
  numeral); a number with a fraction or an exponent prints with a character that is not a
  digit and is not represented. An object is the list of its own properties.
\<close>

datatype jsval =
    JUndefined
  | JNull
  | JBool bool
  | JNum int
  | JStr string
  | JArr "jsval list"
  | JObj "(string \<times> jsval) list"

datatype js_error =
    TypeError
  | Rejected string

text \<open>
  \<open>TypeError\<close>: a property of \<^verbatim>\<open>null\<close> or \<^verbatim>\<open>undefined\<close> is read, or a value that is not
  a function is called. \<open>Rejected m\<close>: a promise of the HTTP client is rejected with an
  error whose \<^verbatim>\<open>message\<close> is \<open>m\<close>.
\<close>

definition bnd :: "js_error + 'a \<Rightarrow> ('a \<Rightarrow> js_error + 'b) \<Rightarrow> js_error + 'b" where
  "bnd m f = (case m of Inl e \<Rightarrow> Inl e | Inr x \<Rightarrow> f x)"

text \<open>\<^verbatim>\<open>!v\<close> is \<open>\<not> truthy v\<close>; \<^verbatim>\<open>a || b\<close> and \<^verbatim>\<open>a && b\<close> evaluate \<open>b\<close> only when needed.\<close>

fun truthy :: "jsval \<Rightarrow> bool" where
  "truthy JUndefined = False"
| "truthy JNull = False"
| "truthy (JBool b) = b"
| "truthy (JNum n) = (n \<noteq> 0)"
| "truthy (JStr s) = (s \<noteq> [])"
| "truthy (JArr xs) = True"
| "truthy (JObj fs) = True"

definition js_or :: "jsval \<Rightarrow> (js_error + jsval) \<Rightarrow> js_error + jsval" where
  "js_or a b = (if truthy a then Inr a else b)"

definition js_and :: "jsval \<Rightarrow> (js_error + jsval) \<Rightarrow> js_error + jsval" where
  "js_and a b = (if truthy a then b else Inr a)"

text \<open>
  \<^verbatim>\<open>v.p\<close> for the property names the handler uses: an own property of an object,
  \<^verbatim>\<open>length\<close> of an array or a string, \<^verbatim>\<open>undefined\<close> otherwise; reading from \<^verbatim>\<open>null\<close> or
  \<^verbatim>\<open>undefined\<close> throws.
\<close>

fun get_prop :: "jsval \<Rightarrow> string \<Rightarrow> js_error + jsval" where
  "get_prop JUndefined p = Inl TypeError"
| "get_prop JNull p = Inl TypeError"
| "get_prop (JObj fs) p = Inr (case map_of fs p of None \<Rightarrow> JUndefined | Some v \<Rightarrow> v)"
| "get_prop (JArr xs) p = Inr (if p = ''length'' then JNum (int (length xs)) else JUndefined)"
| "get_prop (JStr s) p = Inr (if p = ''length'' then JNum (int (length s)) else JUndefined)"
| "get_prop (JBool b) p = Inr JUndefined"
| "get_prop (JNum n) p = Inr JUndefined"

text \<open>\<^verbatim>\<open>v[0]\<close>.\<close>

fun get_first :: "jsval \<Rightarrow> js_error + jsval" where
  "get_first JUndefined = Inl TypeError"
| "get_first JNull = Inl TypeError"
| "get_first (JArr xs) = Inr (case xs of [] \<Rightarrow> JUndefined | x # _ \<Rightarrow> x)"
| "get_first (JStr s) = Inr (case s of [] \<Rightarrow> JUndefined | c # _ \<Rightarrow> JStr [c])"
| "get_first (JObj fs) = Inr (case map_of fs ''0'' of None \<Rightarrow> JUndefined | Some v \<Rightarrow> v)"
| "get_first (JBool b) = Inr JUndefined"
| "get_first (JNum n) = Inr JUndefined"

subsection \<open>Conversion to text\<close>

definition digit_char :: "nat \<Rightarrow> char" where
  "digit_char d = ''0123456789'' ! (d mod 10)"

fun decimal :: "nat \<Rightarrow> string" where
  "decimal n = (if n < 10 then [digit_char n] else decimal (n div 10) @ [digit_char (n mod 10)])"

declare decimal.simps [simp del]

fun join_comma :: "string list \<Rightarrow> string" where
  "join_comma [] = []"
| "join_comma [s] = s"
| "join_comma (s # t # ss) = s @ '','' @ join_comma (t # ss)"

text \<open>
  \<^verbatim>\<open>String(v)\<close>, the coercion \<^verbatim>\<open>RegExp.prototype.test\<close> applies to its argument. An array
  prints its elements separated by commas, \<^verbatim>\<open>null\<close> and \<^verbatim>\<open>undefined\<close> elements as the
  empty text. An object prints as \<^verbatim>\<open>[object Object]\<close> through the method \<^verbatim>\<open>toString\<close> it
  inherits; an own property of that name hides the method, and since no parsed value is
  a function the conversion then throws.
\<close>

fun to_string :: "jsval \<Rightarrow> js_error + string"
  and element_strings :: "jsval list \<Rightarrow> js_error + string list" where
  "to_string JUndefined = Inr ''undefined''"
| "to_string JNull = Inr ''null''"
| "to_string (JBool b) = Inr (if b then ''true'' else ''false'')"
| "to_string (JNum n) = Inr (if n < 0 then ''-'' @ decimal (nat (- n)) else decimal (nat n))"
| "to_string (JStr s) = Inr s"
| "to_string (JArr xs) = bnd (element_strings xs) (\<lambda>ss. Inr (join_comma ss))"
| "to_string (JObj fs) =
     (if map_of fs ''toString'' = None then Inr ''[object Object]'' else Inl TypeError)"
| "element_strings [] = Inr []"
| "element_strings (x # xs) =
     bnd (if x = JUndefined \<or> x = JNull then Inr [] else to_string x) (\<lambda>s.
     bnd (element_strings xs) (\<lambda>ss. Inr (s # ss)))"

text \<open>
  \<^verbatim>\<open>v > 0\<close>. The operand is converted to a number: \<^verbatim>\<open>undefined\<close> to NaN, \<^verbatim>\<open>null\<close> to 0,
  \<^verbatim>\<open>true\<close> to 1, an object to NaN through its text \<^verbatim>\<open>[object Object]\<close>. A string (and an
  array, through its text) is read by the runtime's numeric-literal grammar with
  floating-point rounding; that reading is the parameter \<open>pos\<close>, which says whether the
  number a text denotes is greater than zero.
\<close>

fun gt_zero :: "(string \<Rightarrow> bool) \<Rightarrow> jsval \<Rightarrow> js_error + bool" where
  "gt_zero pos JUndefined = Inr False"
| "gt_zero pos JNull = Inr False"
| "gt_zero pos (JBool b) = Inr b"
| "gt_zero pos (JNum n) = Inr (0 < n)"
| "gt_zero pos (JStr s) = Inr (pos s)"
| "gt_zero pos (JArr xs) = bnd (to_string (JArr xs)) (\<lambda>s. Inr (pos s))"
| "gt_zero pos (JObj fs) = bnd (to_string (JObj fs)) (\<lambda>s. Inr False)"

subsection \<open>The identifier check\<close>

definition is_digit :: "char \<Rightarrow> bool" where
  "is_digit c = (c \<in> set ''0123456789'')"

text \<open>\<^verbatim>\<open>^\d{n}$\<close>: exactly \<open>n\<close> digits from the start of the text to its end.\<close>

fun match_digits :: "nat \<Rightarrow> string \<Rightarrow> bool" where
  "match_digits 0 s = (s = [])"
| "match_digits (Suc n) [] = False"
| "match_digits (Suc n) (c # s) = (is_digit c \<and> match_digits n s)"

text \<open>\<^verbatim>\<open>/^\d{10}$|^\d{12}$/.test(s)\<close> on a text \<open>s\<close>.\<close>

definition inn_regex_test :: "string \<Rightarrow> bool" where
  "inn_regex_test s = (match_digits 10 s \<or> match_digits 12 s)"

text \<open>\<^verbatim>\<open>/^\d{10}$|^\d{12}$/.test(v)\<close> on any value: the value is converted to text first.\<close>

definition test_inn :: "jsval \<Rightarrow> js_error + bool" where
  "test_inn v = bnd (to_string v) (\<lambda>s. Inr (inn_regex_test s))"

subsection \<open>Lower case\<close>

definition lower_char :: "char \<Rightarrow> char" where
  "lower_char c =
     (case map_of (zip ''ABCDEFGHIJKLMNOPQRSTUVWXYZ'' ''abcdefghijklmnopqrstuvwxyz'') c of
        None \<Rightarrow> c
      | Some l \<Rightarrow> l)"

text \<open>
  \<^verbatim>\<open>v.toLowerCase()\<close>: only a string has the method, on any other value the call throws.
  The model turns the letters \<^verbatim>\<open>A\<close> to \<^verbatim>\<open>Z\<close> into lower case and leaves every other
  character as it is. JavaScript also turns letters outside ASCII into lower case, so for
  a status token with such a letter the state stored by the handler differs from the
  model's in that letter. The status tokens of the provider are ASCII, and the
  comparison with \<^verbatim>\<open>active\<close> comes out the same either way, since no letter outside
  ASCII has a letter of \<^verbatim>\<open>active\<close> as its lower case.
\<close>

fun toLowerCase :: "jsval \<Rightarrow> js_error + string" where
  "toLowerCase (JStr s) = Inr (map lower_char s)"
| "toLowerCase v = Inl TypeError"

fun get_path :: "jsval \<Rightarrow> string list \<Rightarrow> js_error + jsval" where
  "get_path v [] = Inr v"
| "get_path v (p # ps) = bnd (get_prop v p) (\<lambda>w. get_path w ps)"

section \<open>The verification result\<close>

text \<open>
  The message literals of the handler, in the order of the source:
  \<open>MsgInnMissing\<close> "INN ne predostavlen." (no identifier given),
  \<open>MsgInnFormat\<close> "Nekorrektnyj format INN." (malformed identifier),
  \<open>MsgUpstream\<close> "Oshibka pri proverke INN cherez FNS. Poprobujte pozzhe." (the provider
  answered with an error status),
  \<open>MsgFound\<close> "Organizaciya najdena." (organization found),
  \<open>MsgNotActive\<close> "Organizaciya najdena, no ne yavlyaetsya dejstvuyushchej." (organization
  found, but it is not an active one),
  \<open>MsgNotFound\<close> "Organizaciya s takim INN ne najdena." (no organization with this
  identifier),
  \<open>MsgInternal\<close> "Vnutrennyaya oshibka servera." (internal server error).
\<close>

datatype msg =
    MsgInnMissing
  | MsgInnFormat
  | MsgUpstream
  | MsgFound
  | MsgNotActive
  | MsgNotFound
  | MsgInternal

record company =
  name :: jsval
  ogrn :: jsval
  address :: jsval
  okved :: jsval
  state :: string

record verification_result =
  status :: string
  message :: msg
  company :: "company option"

text \<open>The object literal built from \<^verbatim>\<open>companyData\<close>, property by property.\<close>

definition company_of :: "jsval \<Rightarrow> js_error + company" where
  "company_of companyData =
     bnd (bnd (get_path companyData [''name'', ''full_with_opf'']) (\<lambda>a. js_or a
         (bnd (get_path companyData [''name'', ''short_with_opf'']) (\<lambda>b. js_or b
         (bnd (get_path companyData [''name'', ''full'']) (\<lambda>c. js_or c
         (get_path companyData [''name'', ''short'']))))))) (\<lambda>v_name.
     bnd (bnd (get_prop companyData ''ogrn'') (\<lambda>a. js_or a
         (get_prop companyData ''ogrnip''))) (\<lambda>v_ogrn.
     bnd (get_path companyData [''address'', ''value'']) (\<lambda>v_address.
     bnd (bnd (get_prop companyData ''okved'') (\<lambda>a. js_or a
         (bnd (get_prop companyData ''okveds'') (\<lambda>b. js_and b
         (bnd (bnd (get_prop companyData ''okveds'') get_first) (\<lambda>c. js_and c
         (bnd (bnd (get_prop companyData ''okveds'') get_first) (\<lambda>d.
            get_prop d ''name'')))))))) (\<lambda>v_okved.
     bnd (bnd (get_path companyData [''state'', ''status'']) toLowerCase) (\<lambda>v_state.
     Inr \<lparr>name = v_name, ogrn = v_ogrn, address = v_address, okved = v_okved,
          state = v_state\<rparr>)))))"

text \<open>
  The result of the branch that found a candidate: \<^verbatim>\<open>success\<close>, turned into
  \<^verbatim>\<open>warning\<close> when the state is not \<^verbatim>\<open>active\<close>.
\<close>

definition found_result :: "company \<Rightarrow> verification_result" where
  "found_result co =
     (let result = \<lparr>status = ''success'', message = MsgFound, company = Some co\<rparr>
      in if state co \<noteq> ''active''
         then result\<lparr>status := ''warning'', message := MsgNotActive\<rparr>
         else result)"

definition not_found_result :: verification_result where
  "not_found_result = \<lparr>status = ''error'', message = MsgNotFound, company = None\<rparr>"

text \<open>\<^verbatim>\<open>data.suggestions && data.suggestions.length > 0\<close>.\<close>

definition has_suggestions :: "(string \<Rightarrow> bool) \<Rightarrow> jsval \<Rightarrow> js_error + bool" where
  "has_suggestions pos data =
     bnd (get_prop data ''suggestions'') (\<lambda>sg.
       if truthy sg
       then bnd (get_path data [''suggestions'', ''length'']) (gt_zero pos)
       else Inr False)"

text \<open>\<^verbatim>\<open>data.suggestions[0].data\<close>.\<close>

definition first_candidate :: "jsval \<Rightarrow> js_error + jsval" where
  "first_candidate data =
     bnd (bnd (get_prop data ''suggestions'') get_first) (\<lambda>s. get_prop s ''data'')"

text \<open>
  The status code and the result that the two branches after \<^verbatim>\<open>response.json()\<close>
  compute from the parsed body: \<open>200\<close> with the result of the first candidate, or
  \<open>404\<close> with the not-found result. Both branches then store the result and send it
  (see \<open>try_block\<close> below, which spells the branches out with their cache writes).
\<close>

definition normalize_data :: "(string \<Rightarrow> bool) \<Rightarrow> jsval \<Rightarrow> js_error + (nat \<times> verification_result)" where
  "normalize_data pos data =
     bnd (has_suggestions pos data) (\<lambda>found.
       if found
       then bnd (first_candidate data) (\<lambda>companyData.
            bnd (company_of companyData) (\<lambda>co. Inr (200, found_result co)))
       else Inr (404, not_found_result))"

section \<open>The cache\<close>

text \<open>
  Modelled from the spec: the \<^verbatim>\<open>lru-cache\<close> package, whose class \<^verbatim>\<open>LRUCache\<close> the server
  instantiates, is not among the sources. A cache entry is a key, the stored result and
  the time \<open>insertedAt\<close> at which it was put; the entries are kept in order of recency,
  the most recently used first. Times are milliseconds of a clock that never runs
  backwards.
\<close>

type_synonym entry = "jsval \<times> verification_result \<times> nat"

record lru_cache =
  max_opt :: nat
  ttl :: nat
  entries :: "entry list"

text \<open>
  Modelled from the spec: the constructor of \<^verbatim>\<open>LRUCache\<close>, which fixes capacity and TTL
  and starts empty.
\<close>

definition LRUCache :: "nat \<Rightarrow> nat \<Rightarrow> lru_cache" where
  "LRUCache m t = \<lparr>max_opt = m, ttl = t, entries = []\<rparr>"

text \<open>
  Modelled from the spec: key comparison of the cache, missing with the package. Keys are
  compared as the keys of a JavaScript \<^verbatim>\<open>Map\<close>: strings, numbers and the other primitive
  values by value, arrays and objects by identity. Every request parses its own body, so
  an array or object key is never the one of an entry stored before.
\<close>

fun same_key :: "jsval \<Rightarrow> jsval \<Rightarrow> bool" where
  "same_key (JArr xs) k = False"
| "same_key (JObj fs) k = False"
| "same_key e k = (e = k)"

text \<open>
  Modelled from the spec: the entry the cache holds for a key, missing with the package.
  It is the first one in order of recency whose key is the given one.
\<close>

definition lookup :: "entry list \<Rightarrow> jsval \<Rightarrow> entry option" where
  "lookup es k = find (\<lambda>e. same_key (fst e) k) es"

text \<open>
  Modelled from the spec: taking the entry of a key out of the cache, missing with the
  package.
\<close>

definition remove_key :: "jsval \<Rightarrow> entry list \<Rightarrow> entry list" where
  "remove_key k es = filter (\<lambda>e. \<not> same_key (fst e) k) es"

text \<open>
  Modelled from the spec: freshness of an entry, missing with the package. An entry is
  treated as absent once \<open>now - insertedAt \<ge> TTL\<close>.
\<close>

definition fresh :: "lru_cache \<Rightarrow> nat \<Rightarrow> entry \<Rightarrow> bool" where
  "fresh c now e = (now - snd (snd e) < ttl c)"

text \<open>
  Modelled from the spec: \<^verbatim>\<open>cache.has(key)\<close>, missing with the package. It says whether
  \<^verbatim>\<open>get\<close> would return a value, and changes nothing.
\<close>

definition cache_has :: "lru_cache \<Rightarrow> nat \<Rightarrow> jsval \<Rightarrow> bool" where
  "cache_has c now k = (case lookup (entries c) k of None \<Rightarrow> False | Some e \<Rightarrow> fresh c now e)"

text \<open>
  Modelled from the spec: \<^verbatim>\<open>cache.get(key)\<close>, missing with the package. Absent if never
  inserted or expired (the expired entry is dropped); a hit makes the entry the most
  recently used one.
\<close>

definition cache_get :: "lru_cache \<Rightarrow> nat \<Rightarrow> jsval \<Rightarrow> verification_result option \<times> lru_cache" where
  "cache_get c now k =
     (case lookup (entries c) k of
        None \<Rightarrow> (None, c)
      | Some e \<Rightarrow>
          if fresh c now e
          then (Some (fst (snd e)), c\<lparr>entries := e # remove_key k (entries c)\<rparr>)
          else (None, c\<lparr>entries := remove_key k (entries c)\<rparr>))"

text \<open>
  Modelled from the spec: \<^verbatim>\<open>cache.set(key, value)\<close>, missing with the package. It inserts
  or overwrites, stamping \<open>insertedAt = now\<close>, and the entry becomes the most recently
  used one; if the size would exceed the capacity, the least recently used entry is
  evicted before inserting.
\<close>

definition cache_set :: "lru_cache \<Rightarrow> nat \<Rightarrow> jsval \<Rightarrow> verification_result \<Rightarrow> lru_cache" where
  "cache_set c now k v =
     (case lookup (entries c) k of
        Some e \<Rightarrow> c\<lparr>entries := (k, v, now) # remove_key k (entries c)\<rparr>
      | None \<Rightarrow>
          if max_opt c \<le> length (entries c)
          then c\<lparr>entries := (k, v, now) # butlast (entries c)\<rparr>
          else c\<lparr>entries := (k, v, now) # entries c\<rparr>)"

text \<open>The server's cache: \<^verbatim>\<open>max: 100\<close>, \<^verbatim>\<open>ttl: 1000 * 60 * 60\<close>.\<close>

definition cache :: lru_cache where
  "cache = LRUCache 100 (1000 * 60 * 60)"

section \<open>The handler of POST /api/fns/verify-inn\<close>

datatype detail =
    UpstreamText string
  | ErrorMessage js_error

text \<open>
  What the handler sends: \<^verbatim>\<open>{ message }\<close>, \<^verbatim>\<open>{ message, details }\<close>, a verification
  result, or nothing when \<^verbatim>\<open>res.json\<close> is given \<^verbatim>\<open>undefined\<close>.
\<close>

datatype resp_body =
    Message msg
  | MessageDetails msg detail
  | Result verification_result
  | NoBody

record http_response =
  code :: nat
  body :: resp_body

text \<open>
  The provider's answer as the HTTP client hands it over: the status code, and what
  \<^verbatim>\<open>response.text()\<close> and \<^verbatim>\<open>response.json()\<close> give, each of which may be rejected
  (\<^verbatim>\<open>json()\<close> is when the body is not JSON).
\<close>

record upstream_response =
  up_status :: nat
  up_text :: "js_error + string"
  up_json :: "js_error + jsval"

definition response_ok :: "upstream_response \<Rightarrow> bool" where
  "response_ok r = (200 \<le> up_status r \<and> up_status r < 300)"

text \<open>
  The handler suspends once, at \<^verbatim>\<open>await fetch(...)\<close>. \<open>verify_inn_start\<close> is the part
  before it, run at time \<open>now\<close> on the \<^verbatim>\<open>inn\<close> property of the request body: it either
  answers (\<open>Done\<close>) or issues the upstream call with \<^verbatim>\<open>query: inn\<close> (\<open>Await\<close>). This part
  is outside the \<^verbatim>\<open>try\<close> block: when the conversion of \<^verbatim>\<open>inn\<close> to text throws, the
  handler's promise is rejected and the handler sends no answer (\<open>Throws\<close>).
\<close>

datatype pending =
    Done http_response
  | Await jsval
  | Throws js_error

definition verify_inn_start :: "nat \<Rightarrow> jsval \<Rightarrow> lru_cache \<Rightarrow> pending \<times> lru_cache" where
  "verify_inn_start now inn c =
     (if \<not> truthy inn then (Done \<lparr>code = 400, body = Message MsgInnMissing\<rparr>, c)
      else case test_inn inn of
        Inl error \<Rightarrow> (Throws error, c)
      | Inr matches \<Rightarrow>
          if \<not> matches then (Done \<lparr>code = 400, body = Message MsgInnFormat\<rparr>, c)
          else if cache_has c now inn
            then (case cache_get c now inn of
                    (None, c') \<Rightarrow> (Done \<lparr>code = 200, body = NoBody\<rparr>, c')
                  | (Some v, c') \<Rightarrow> (Done \<lparr>code = 200, body = Result v\<rparr>, c'))
          else (Await inn, c))"

text \<open>
  The body of the \<^verbatim>\<open>try\<close> block from the point where the upstream call is settled, at
  time \<open>now\<close>, with \<open>fetched\<close> what \<^verbatim>\<open>fetch\<close> gave. An exception is \<open>Inl\<close>.
\<close>

definition try_block ::
  "(string \<Rightarrow> bool) \<Rightarrow> nat \<Rightarrow> jsval \<Rightarrow> js_error + upstream_response \<Rightarrow> lru_cache
     \<Rightarrow> js_error + (http_response \<times> lru_cache)" where
  "try_block pos now inn fetched c =
     bnd fetched (\<lambda>response.
       if \<not> response_ok response
       then bnd (up_text response) (\<lambda>errorText.
              Inr (\<lparr>code = up_status response,
                    body = MessageDetails MsgUpstream (UpstreamText errorText)\<rparr>, c))
       else bnd (up_json response) (\<lambda>data.
            bnd (has_suggestions pos data) (\<lambda>found.
              if found
              then bnd (first_candidate data) (\<lambda>companyData.
                   bnd (company_of companyData) (\<lambda>co.
                     let result = found_result co
                     in Inr (\<lparr>code = 200, body = Result result\<rparr>, cache_set c now inn result)))
              else let result = not_found_result
                   in Inr (\<lparr>code = 404, body = Result result\<rparr>,
                           cache_set c now inn result))))"

text \<open>The \<^verbatim>\<open>try\<close> block with its \<^verbatim>\<open>catch\<close>.\<close>

definition verify_inn_finish ::
  "(string \<Rightarrow> bool) \<Rightarrow> nat \<Rightarrow> jsval \<Rightarrow> js_error + upstream_response \<Rightarrow> lru_cache
     \<Rightarrow> http_response \<times> lru_cache" where
  "verify_inn_finish pos now inn fetched c =
     (case try_block pos now inn fetched c of
        Inl error \<Rightarrow> (\<lparr>code = 500, body = MessageDetails MsgInternal (ErrorMessage error)\<rparr>, c)
      | Inr rc \<Rightarrow> rc)"

subsection \<open>One request handled from start to end\<close>

text \<open>
  A request carries the \<^verbatim>\<open>inn\<close> property of its body, its time of arrival, and, should
  the provider be called, the time at which the call settles and its outcome. The server
  state is the cache and the log of the queries sent upstream. The outcome of a request
  is the answer sent (\<open>Inr\<close>), or the error the handler throws without answering
  (\<open>Inl\<close>).
\<close>

record request =
  inn :: jsval
  arrival :: nat
  settled :: nat
  fetched :: "js_error + upstream_response"

record server =
  cache_state :: lru_cache
  upstream_calls :: "jsval list"

definition verify_inn ::
  "(string \<Rightarrow> bool) \<Rightarrow> request \<Rightarrow> server \<Rightarrow> (js_error + http_response) \<times> server" where
  "verify_inn pos rq sv =
     (case verify_inn_start (arrival rq) (inn rq) (cache_state sv) of
        (Done res, c) \<Rightarrow> (Inr res, sv\<lparr>cache_state := c\<rparr>)
      | (Throws error, c) \<Rightarrow> (Inl error, sv\<lparr>cache_state := c\<rparr>)
      | (Await q, c) \<Rightarrow>
          (case verify_inn_finish pos (settled rq) (inn rq) (fetched rq) c of
             (res, c') \<Rightarrow>
               (Inr res, \<lparr>cache_state = c', upstream_calls = upstream_calls sv @ [q]\<rparr>)))"

subsection \<open>Interleaved requests\<close>

text \<open>
  Between the two parts of one request the parts of others may run. An event is one
  part of some request; a history of the cache is any list of events.
\<close>

datatype event =
    Arrive nat jsval
  | Settle nat jsval "js_error + upstream_response"

fun step :: "(string \<Rightarrow> bool) \<Rightarrow> event \<Rightarrow> lru_cache \<Rightarrow> lru_cache" where
  "step pos (Arrive now k) c = snd (verify_inn_start now k c)"
| "step pos (Settle now k f) c = snd (verify_inn_finish pos now k f c)"

fun run :: "(string \<Rightarrow> bool) \<Rightarrow> event list \<Rightarrow> lru_cache \<Rightarrow> lru_cache" where
  "run pos [] c = c"
| "run pos (ev # evs) c = run pos evs (step pos ev c)"

fun event_key :: "event \<Rightarrow> jsval" where
  "event_key (Arrive now k) = k"
| "event_key (Settle now k f) = k"

text \<open>
  The configuration of a cache never changes, and its size stays within the capacity.
\<close>

definition cache_ok :: "nat \<Rightarrow> nat \<Rightarrow> lru_cache \<Rightarrow> bool" where
  "cache_ok m t c = (max_opt c = m \<and> ttl c = t \<and> length (entries c) \<le> m)"

section \<open>The wording of the specification\<close>

text \<open>
  The validator as the specification words it: the text, after trimming whitespace at
  both ends, consists of exactly 10 or exactly 12 digits. \<open>digits_10_or_12\<close> is the
  same test without the trimming.
\<close>

definition is_space :: "char \<Rightarrow> bool" where
  "is_space c = (c \<in> set [CHR '' '', CHR 0x09, CHR 0x0A, CHR 0x0B, CHR 0x0C, CHR 0x0D])"

definition trim :: "string \<Rightarrow> string" where
  "trim s = rev (dropWhile is_space (rev (dropWhile is_space s)))"

definition digits_10_or_12 :: "string \<Rightarrow> bool" where
  "digits_10_or_12 s = ((length s = 10 \<or> length s = 12) \<and> list_all is_digit s)"

definition spec_validate :: "string \<Rightarrow> bool" where
  "spec_validate raw = digits_10_or_12 (trim raw)"

text \<open>
  Name resolution as the specification words it: of the candidates in their order the
  first non-empty one wins, where a value is empty when it is absent (\<^verbatim>\<open>undefined\<close>,
  \<^verbatim>\<open>null\<close>), the empty text or another value that JavaScript takes for false; when all are
  empty the last one is taken as it is. \<open>prop_of v p\<close> is the property \<open>p\<close> of \<open>v\<close>.
\<close>

definition prop_of :: "jsval \<Rightarrow> string \<Rightarrow> jsval" where
  "prop_of v p = (case get_prop v p of Inl e \<Rightarrow> JUndefined | Inr x \<Rightarrow> x)"

definition first_non_empty :: "jsval list \<Rightarrow> jsval" where
  "first_non_empty vs = (case find truthy vs of None \<Rightarrow> last vs | Some v \<Rightarrow> v)"

text \<open>
  The transport failures of the specification, told from what the HTTP client hands over
  and from nothing the handler does with it: the call is rejected (network error), the
  provider answers with a status outside \<open>200..299\<close>, or the provider answers with a
  status in \<open>200..299\<close> and a body that is not JSON (malformed body).
\<close>

definition transport_failure :: "js_error + upstream_response \<Rightarrow> bool" where
  "transport_failure f =
     (case f of
        Inl e \<Rightarrow> True
      | Inr r \<Rightarrow>
          if \<not> response_ok r then True
          else (case up_json r of Inl e \<Rightarrow> True | Inr data \<Rightarrow> False))"

section \<open>Sample data\<close>

text \<open>
  A reading of numeric text under which no text denotes a positive number (the sample
  data holds no text where a number is compared); a candidate as the provider sends it,
  with the status token as parameter; the answer carrying a list of suggestions; the
  company the handler builds from the candidate; a request for the identifier
  \<^verbatim>\<open>7700000000\<close> arriving at a given time and settled 5 ms later; a server that has just
  started; and a history that stores results under \<open>n\<close> different keys.
\<close>

definition sample_pos :: "string \<Rightarrow> bool" where
  "sample_pos s = False"

definition sample_party :: "string \<Rightarrow> jsval" where
  "sample_party st =
     JObj [(''name'', JObj [(''full_with_opf'', JNull), (''short_with_opf'', JStr ''OOO Romashka''),
                            (''full'', JStr ''ROMASHKA''), (''short'', JStr ''Romashka'')]),
           (''ogrnip'', JStr ''304770000000017''),
           (''address'', JObj [(''value'', JStr ''g Moskva'')]),
           (''okveds'', JArr [JObj [(''code'', JStr ''62.01''), (''name'', JStr ''Software'')]]),
           (''state'', JObj [(''status'', JStr st)])]"

definition sample_reply :: "jsval list \<Rightarrow> js_error + upstream_response" where
  "sample_reply sgs =
     Inr \<lparr>up_status = 200, up_text = Inr [], up_json = Inr (JObj [(''suggestions'', JArr sgs)])\<rparr>"

definition sample_company :: "string \<Rightarrow> company" where
  "sample_company st =
     \<lparr>name = JStr ''OOO Romashka'', ogrn = JStr ''304770000000017'', address = JStr ''g Moskva'',
      okved = JStr ''Software'', state = st\<rparr>"

definition sample_request :: "nat \<Rightarrow> js_error + upstream_response \<Rightarrow> request" where
  "sample_request t f = \<lparr>inn = JStr ''7700000000'', arrival = t, settled = t + 5, fetched = f\<rparr>"

definition sample_server :: server where
  "sample_server = \<lparr>cache_state = cache, upstream_calls = []\<rparr>"

definition fill :: "nat \<Rightarrow> event list" where
  "fill n = map (\<lambda>i. Settle i (JNum (int i)) (sample_reply [])) [0..<n]"

section \<open>Auxiliary facts\<close>

text \<open>
  The regular expression accepts exactly the texts of 10 or 12 digits.
\<close>

lemma match_digits_iff: "match_digits n s \<longleftrightarrow> length s = n \<and> list_all is_digit s"
proof (induction n arbitrary: s)
  case 0
  then show ?case by auto
next
  case (Suc n)
  then show ?case by (cases s) auto
qed

lemma inn_regex_test_iff: "inn_regex_test s \<longleftrightarrow> digits_10_or_12 s"
  by (auto simp: inn_regex_test_def digits_10_or_12_def match_digits_iff)

lemma test_inn_JStr: "test_inn (JStr s) = Inr (digits_10_or_12 s)"
  by (simp add: test_inn_def bnd_def inn_regex_test_iff)

lemma test_inn_JNum:
  "test_inn (JNum n)
     = Inr (digits_10_or_12 (if n < 0 then ''-'' @ decimal (nat (- n)) else decimal (nat n)))"
  by (simp add: test_inn_def bnd_def inn_regex_test_iff)

text \<open>
  The decimal numeral of a number consists of digits, and has \<open>k + 1\<close> of them exactly
  for the numbers from \<open>10^k\<close> up to \<open>10^(k+1) - 1\<close>.
\<close>

lemma digit_char_is_digit: "is_digit (digit_char d)"
proof -
  have "d mod 10 < length ''0123456789''" by simp
  then have "''0123456789'' ! (d mod 10) \<in> set ''0123456789''" by (rule nth_mem)
  then show ?thesis unfolding is_digit_def digit_char_def .
qed

lemma decimal_digits: "list_all is_digit (decimal n)"
proof (induction n rule: decimal.induct)
  case (1 n)
  show ?case
  proof (cases "n < 10")
    case True
    then show ?thesis by (subst decimal.simps) (simp add: digit_char_is_digit)
  next
    case False
    with 1 show ?thesis by (subst decimal.simps) (simp add: digit_char_is_digit)
  qed
qed

lemma length_decimal_le: "0 < k \<Longrightarrow> n < 10 ^ k \<Longrightarrow> length (decimal n) \<le> k"
proof (induction n arbitrary: k rule: decimal.induct)
  case (1 n)
  show ?case
  proof (cases "n < 10")
    case True
    with 1 show ?thesis by (subst decimal.simps) simp
  next
    case False
    with "1.prems" obtain j where k: "k = Suc j" by (cases k) auto
    from False "1.prems" k have "0 < j" by (cases j) auto
    moreover from "1.prems" k have "n div 10 < 10 ^ j"
      by (simp add: less_mult_imp_div_less mult.commute)
    ultimately have "length (decimal (n div 10)) \<le> j" using "1.IH" False by blast
    with False k show ?thesis by (subst decimal.simps) simp
  qed
qed

lemma length_decimal_gt: "10 ^ k \<le> n \<Longrightarrow> k < length (decimal n)"
proof (induction n arbitrary: k rule: decimal.induct)
  case (1 n)
  show ?case
  proof (cases "n < 10")
    case True
    have "k = 0"
    proof (cases k)
      case 0
      then show ?thesis .
    next
      case (Suc j)
      have "(1::nat) \<le> 10 ^ j" by simp
      then have "(10::nat) \<le> 10 ^ k" using Suc by simp
      with "1.prems" True show ?thesis by simp
    qed
    then show ?thesis by (subst decimal.simps) simp
  next
    case False
    show ?thesis
    proof (cases k)
      case 0
      then show ?thesis by (subst decimal.simps) simp
    next
      case (Suc j)
      with "1.prems" have "10 ^ j \<le> n div 10" by (simp add: less_eq_div_iff_mult_less_eq mult.commute)
      then have "j < length (decimal (n div 10))" using "1.IH" False by blast
      with False Suc show ?thesis by (subst decimal.simps) simp
    qed
  qed
qed

lemma length_decimal_eq: "10 ^ k \<le> n \<Longrightarrow> n < 10 ^ Suc k \<Longrightarrow> length (decimal n) = Suc k"
  using length_decimal_le [of "Suc k" n] length_decimal_gt [of k n] by simp

text \<open>
  When \<^verbatim>\<open>has\<close> says yes, \<^verbatim>\<open>get\<close> returns the stored value and moves the entry to the
  front.
\<close>

lemma cache_has_get: "cache_has c now k \<Longrightarrow> \<exists>e. lookup (entries c) k = Some e \<and> fresh c now e \<and>
   cache_get c now k = (Some (fst (snd e)), c\<lparr>entries := e # remove_key k (entries c)\<rparr>)"
  by (auto simp: cache_has_def cache_get_def split: option.splits)

text \<open>
  Sequencing of steps that may throw.
\<close>

lemma bnd_Inr_iff: "bnd m f = Inr y \<longleftrightarrow> (\<exists>x. m = Inr x \<and> f x = Inr y)"
  by (cases m) (auto simp: bnd_def)

lemma bnd_Inr [simp]: "bnd (Inr x) f = f x"
  by (simp add: bnd_def)

lemma bnd_Inl [simp]: "bnd (Inl e) f = Inl e"
  by (simp add: bnd_def)

text \<open>
  With a status in \<open>200..299\<close> the \<^verbatim>\<open>try\<close> block parses the body, computes
  \<open>normalize_data\<close>, stores the result under the identifier and sends it.
\<close>

lemma try_block_ok:
  "response_ok r \<Longrightarrow> try_block pos now k (Inr r) c =
     bnd (up_json r) (\<lambda>data. bnd (normalize_data pos data) (\<lambda>(cd, result).
       Inr (\<lparr>code = cd, body = Result result\<rparr>, cache_set c now k result)))"
  unfolding try_block_def normalize_data_def
  by (cases "up_json r") (auto simp: bnd_def Let_def split: sum.splits)

lemma finish_ok:
  "response_ok r \<Longrightarrow> up_json r = Inr data \<Longrightarrow> normalize_data pos data = Inr (cd, result) \<Longrightarrow>
     verify_inn_finish pos now k (Inr r) c =
       (\<lparr>code = cd, body = Result result\<rparr>, cache_set c now k result)"
  by (simp add: verify_inn_finish_def try_block_ok)

lemma finish_result:
  assumes "verify_inn_finish pos now k f c = (resp, c')" and "body resp = Result res"
  shows "\<exists>r data. f = Inr r \<and> response_ok r \<and> up_json r = Inr data \<and>
           normalize_data pos data = Inr (code resp, res) \<and> c' = cache_set c now k res"
proof (cases f)
  case (Inl e)
  with assms show ?thesis by (auto simp: verify_inn_finish_def try_block_def)
next
  case (Inr r)
  show ?thesis
  proof (cases "response_ok r")
    case False
    with Inr assms show ?thesis
      by (cases "up_text r") (auto simp: verify_inn_finish_def try_block_def)
  next
    case True
    show ?thesis
    proof (cases "up_json r")
      case (Inl e)
      with True Inr assms show ?thesis by (auto simp: verify_inn_finish_def try_block_ok)
    next
      case json: (Inr data)
      show ?thesis
      proof (cases "normalize_data pos data")
        case (Inl e)
        with json True Inr assms show ?thesis by (auto simp: verify_inn_finish_def try_block_ok)
      next
        case norm: (Inr p)
        obtain cd result where p: "p = (cd, result)" by (cases p)
        from finish_ok [OF True json norm [unfolded p]] assms Inr
        have "resp = \<lparr>code = cd, body = Result result\<rparr>" "c' = cache_set c now k result" by auto
        with assms True json norm p Inr show ?thesis by auto
      qed
    qed
  qed
qed

lemma normalize_cases:
  assumes "normalize_data pos data = Inr (cd, res)"
  shows "(has_suggestions pos data = Inr True \<and> cd = 200 \<and>
            (\<exists>companyData co. first_candidate data = Inr companyData \<and>
               company_of companyData = Inr co \<and> res = found_result co))
       \<or> (has_suggestions pos data = Inr False \<and> cd = 404 \<and> res = not_found_result)"
  using assms unfolding normalize_data_def
  by (auto simp: bnd_Inr_iff split: if_splits)

lemma found_result_status:
  "status (found_result co) = (if state co = ''active'' then ''success'' else ''warning'')"
  "message (found_result co) = (if state co = ''active'' then MsgFound else MsgNotActive)"
  "company (found_result co) = Some co"
  by (simp_all add: found_result_def Let_def)

lemma not_found_result_simps:
  "status not_found_result = ''error''" "message not_found_result = MsgNotFound"
  "company not_found_result = None"
  by (simp_all add: not_found_result_def)

lemma get_path2: "get_path v [p, q] = bnd (get_prop v p) (\<lambda>w. get_prop w q)"
  by (cases "get_prop v p") (simp_all add: bnd_def split: sum.splits)

lemma get_prop_prop_of: "get_prop v p = Inr x \<Longrightarrow> prop_of v p = x"
  by (simp add: prop_of_def)

lemma get_prop_total: "get_prop v p = Inr x \<Longrightarrow> \<exists>y. get_prop v q = Inr y"
  by (cases v) auto

text \<open>
  Looking up a key in the list of entries, and what removing a key or dropping the last
  entry does to the lookup of another key.
\<close>

lemma same_key_eq: "same_key a b \<Longrightarrow> a = b"
  by (cases a) auto

lemma same_key_JStr [simp]: "same_key (JStr s) k = (k = JStr s)"
  by auto

lemma same_key_JNum [simp]: "same_key (JNum n) k = (k = JNum n)"
  by auto

lemma lookup_Cons:
  "lookup (e # es) k = (if same_key (fst e) k then Some e else lookup es k)"
  by (simp add: lookup_def)

lemma lookup_remove_key: "k' \<noteq> k \<Longrightarrow> lookup (remove_key k es) k' = lookup es k'"
proof (induction es)
  case Nil
  then show ?case by (simp add: remove_key_def lookup_def)
next
  case (Cons e es)
  then show ?case
    by (auto simp: remove_key_def lookup_def dest: same_key_eq)
qed

lemma lookup_butlast:
  "lookup (butlast es) k = None \<or> lookup (butlast es) k = lookup es k"
proof (induction es)
  case Nil
  then show ?case by simp
next
  case (Cons e es)
  then show ?case by (cases es) (auto simp: lookup_Cons lookup_def)
qed

lemma lookup_Some_mem: "lookup es k = Some e \<Longrightarrow> e \<in> set es \<and> same_key (fst e) k"
  unfolding lookup_def by (induction es) (auto split: if_splits)

lemma cache_set_fields [simp]:
  "ttl (cache_set c now k v) = ttl c" "max_opt (cache_set c now k v) = max_opt c"
  by (simp_all add: cache_set_def split: option.splits)

lemma cache_get_fields [simp]:
  "ttl (snd (cache_get c now k)) = ttl c" "max_opt (snd (cache_get c now k)) = max_opt c"
  by (simp_all add: cache_get_def split: option.splits)

lemma lookup_cache_set_same:
  "same_key k k \<Longrightarrow> lookup (entries (cache_set c now k v)) k = Some (k, v, now)"
  by (simp add: cache_set_def lookup_Cons split: option.splits)

lemma lookup_cache_set_other:
  assumes "k' \<noteq> k"
  shows "lookup (entries (cache_set c now k v)) k' = None
       \<or> lookup (entries (cache_set c now k v)) k' = lookup (entries c) k'"
proof -
  have other: "\<not> same_key k k'" using assms by (auto dest: same_key_eq)
  show ?thesis
  proof (cases "lookup (entries c) k")
    case (Some e)
    then show ?thesis
      using other assms by (simp add: cache_set_def lookup_Cons lookup_remove_key)
  next
    case None
    then show ?thesis
      using other lookup_butlast [of "entries c" k']
      by (auto simp: cache_set_def lookup_Cons)
  qed
qed

lemma lookup_cache_get_other:
  assumes "k' \<noteq> k"
  shows "lookup (entries (snd (cache_get c now k))) k' = lookup (entries c) k'"
proof (cases "lookup (entries c) k")
  case None
  then show ?thesis by (simp add: cache_get_def)
next
  case (Some e)
  from lookup_Some_mem [OF Some] have "fst e = k" by (auto dest: same_key_eq)
  with assms have "\<not> same_key (fst e) k'" by (auto dest: same_key_eq)
  with Some assms show ?thesis
    by (simp add: cache_get_def lookup_Cons lookup_remove_key)
qed

lemma set_cache_set: "set (entries (cache_set c now k v)) \<subseteq> insert (k, v, now) (set (entries c))"
  by (auto simp: cache_set_def remove_key_def split: option.splits dest: in_set_butlastD)

lemma set_cache_get: "set (entries (snd (cache_get c now k))) \<subseteq> set (entries c)"
  by (auto simp: cache_get_def remove_key_def split: option.splits dest: lookup_Some_mem)

text \<open>
  The second part of the handler either leaves the cache as it is and answers with a
  transport failure, or stores the result it sends.
\<close>

lemma finish_cases:
  "verify_inn_finish pos now k f c = (resp, c') \<Longrightarrow>
     c' = c
   \<or> (\<exists>r data res. f = Inr r \<and> response_ok r \<and> up_json r = Inr data
         \<and> normalize_data pos data = Inr (code resp, res) \<and> body resp = Result res
         \<and> c' = cache_set c now k res)"
proof (cases f)
  case (Inl e)
  then show "verify_inn_finish pos now k f c = (resp, c') \<Longrightarrow> ?thesis"
    by (auto simp: verify_inn_finish_def try_block_def)
next
  case (Inr r)
  assume a: "verify_inn_finish pos now k f c = (resp, c')"
  show ?thesis
  proof (cases "response_ok r")
    case False
    with Inr a show ?thesis
      by (cases "up_text r") (auto simp: verify_inn_finish_def try_block_def)
  next
    case True
    show ?thesis
    proof (cases "bnd (up_json r) (normalize_data pos)")
      case (Inl e)
      with True Inr a show ?thesis
        by (cases "up_json r")
           (auto simp: verify_inn_finish_def try_block_ok bnd_def
                 split: sum.splits)
    next
      case ok: (Inr p)
      then obtain data where json: "up_json r = Inr data" and norm: "normalize_data pos data = Inr p"
        by (auto simp: bnd_Inr_iff)
      obtain cd res where p: "p = (cd, res)" by (cases p)
      from finish_ok [OF True json norm [unfolded p]] a Inr
      have "resp = \<lparr>code = cd, body = Result res\<rparr>" "c' = cache_set c now k res" by auto
      with True json norm p Inr show ?thesis by auto
    qed
  qed
qed

lemma bnd_assoc: "bnd (bnd m f) g = bnd m (\<lambda>x. bnd (f x) g)"
  by (cases m) (simp_all add: bnd_def)

lemma try_block_ok':
  "response_ok r \<Longrightarrow> try_block pos now k (Inr r) c =
     bnd (bnd (up_json r) (normalize_data pos)) (\<lambda>(cd, result).
       Inr (\<lparr>code = cd, body = Result result\<rparr>, cache_set c now k result))"
  by (simp add: try_block_ok bnd_assoc)

lemma finish_rejected:
  "verify_inn_finish pos now k (Inl e) c
     = (\<lparr>code = 500, body = MessageDetails MsgInternal (ErrorMessage e)\<rparr>, c)"
  by (simp add: verify_inn_finish_def try_block_def)

lemma finish_not_ok:
  "\<not> response_ok r \<Longrightarrow>
     verify_inn_finish pos now k (Inr r) c
       = (case up_text r of
            Inl e \<Rightarrow> \<lparr>code = 500, body = MessageDetails MsgInternal (ErrorMessage e)\<rparr>
          | Inr t \<Rightarrow> \<lparr>code = up_status r, body = MessageDetails MsgUpstream (UpstreamText t)\<rparr>,
          c)"
  by (cases "up_text r") (simp_all add: verify_inn_finish_def try_block_def)

lemma finish_not_json:
  "response_ok r \<Longrightarrow> up_json r = Inl e \<Longrightarrow>
     verify_inn_finish pos now k (Inr r) c
       = (\<lparr>code = 500, body = MessageDetails MsgInternal (ErrorMessage e)\<rparr>, c)"
  by (simp add: verify_inn_finish_def try_block_ok')

lemma finish_transport_failure:
  "transport_failure f \<Longrightarrow> snd (verify_inn_finish pos now k f c) = c"
proof (cases f)
  case (Inl e)
  then show ?thesis by (simp add: finish_rejected)
next
  case (Inr r)
  assume "transport_failure f"
  with Inr show ?thesis
    by (cases "response_ok r"; cases "up_json r")
       (simp_all add: transport_failure_def finish_not_ok finish_not_json)
qed

text \<open>
  What the handler computes on the sample data.
\<close>

lemma company_of_sample:
  "company_of (sample_party ''LIQUIDATING'') = Inr (sample_company ''liquidating'')"
  by (simp add: company_of_def sample_party_def sample_company_def js_or_def js_and_def
      lower_char_def)

lemma normalize_sample:
  "normalize_data pos (JObj [(''suggestions'', JArr [JObj [(''data'', sample_party ''LIQUIDATING'')]])])
     = Inr (200, found_result (sample_company ''liquidating''))"
  by (simp add: normalize_data_def has_suggestions_def first_candidate_def company_of_sample)

lemma normalize_empty:
  "normalize_data pos (JObj [(''suggestions'', JArr [])]) = Inr (404, not_found_result)"
  by (simp add: normalize_data_def has_suggestions_def)

lemma response_ok_sample: "response_ok \<lparr>up_status = 200, up_text = t, up_json = j\<rparr>"
  by (simp add: response_ok_def)

text \<open>
  The first part of the handler on a text: rejected, passed on to the provider, or
  answered from the cache.
\<close>

lemma truthy_digits: "digits_10_or_12 s \<Longrightarrow> truthy (JStr s)"
  by (auto simp: digits_10_or_12_def)

lemma start_invalid:
  "\<not> digits_10_or_12 s \<Longrightarrow>
     verify_inn_start now (JStr s) c =
       (Done \<lparr>code = 400, body = Message (if s = [] then MsgInnMissing else MsgInnFormat)\<rparr>, c)"
  by (simp add: verify_inn_start_def test_inn_JStr)

lemma start_valid_miss:
  "truthy k \<Longrightarrow> test_inn k = Inr True \<Longrightarrow> \<not> cache_has c now k \<Longrightarrow>
     verify_inn_start now k c = (Await k, c)"
  by (simp add: verify_inn_start_def)

lemma start_valid_hit:
  assumes "truthy k" and "test_inn k = Inr True" and "cache_has c now k"
  shows "\<exists>e. lookup (entries c) k = Some e \<and> fresh c now e
           \<and> verify_inn_start now k c =
               (Done \<lparr>code = 200, body = Result (fst (snd e))\<rparr>,
                c\<lparr>entries := e # remove_key k (entries c)\<rparr>)"
  using cache_has_get [OF assms(3)] assms by (auto simp: verify_inn_start_def)

lemma nat_range_10:
  assumes "10 ^ 9 \<le> n \<and> n < 10 ^ 10 \<or> 10 ^ 11 \<le> n \<and> n < 10 ^ 12"
  shows "0 < n \<and> test_inn (JNum n) = Inr True"
proof -
  from assms have pos: "0 < n" by auto
  from assms have "(10::nat) ^ 9 \<le> nat n \<and> nat n < 10 ^ Suc 9 \<or> (10::nat) ^ 11 \<le> nat n \<and> nat n < 10 ^ Suc 11"
    by (auto simp: le_nat_iff nat_less_iff)
  then have "length (decimal (nat n)) = 10 \<or> length (decimal (nat n)) = 12"
    using length_decimal_eq [of 9 "nat n"] length_decimal_eq [of 11 "nat n"] by auto
  with pos show ?thesis by (simp add: test_inn_JNum digits_10_or_12_def decimal_digits)
qed

text \<open>
  An entry that is absent stays absent as time passes.
\<close>

lemma cache_has_antimono:
  "\<not> cache_has c t1 k \<Longrightarrow> t1 \<le> t2 \<Longrightarrow> \<not> cache_has c t2 k"
  by (auto simp: cache_has_def fresh_def split: option.splits)

lemma verify_inn_miss:
  assumes "truthy (inn rq)" and "test_inn (inn rq) = Inr True"
    and "\<not> cache_has (cache_state sv) (arrival rq) (inn rq)"
    and "verify_inn_finish pos (settled rq) (inn rq) (fetched rq) (cache_state sv) = (resp, c')"
  shows "verify_inn pos rq sv
           = (Inr resp, \<lparr>cache_state = c', upstream_calls = upstream_calls sv @ [inn rq]\<rparr>)"
  using assms by (simp add: verify_inn_def start_valid_miss)

lemma verify_inn_answered:
  assumes valid: "digits_10_or_12 s" and k: "inn rq = JStr s"
    and miss: "\<not> cache_has (cache_state sv) (arrival rq) (JStr s)"
    and got: "fetched rq = Inr r" "response_ok r" "up_json r = Inr data"
      "normalize_data pos data = Inr (cd, res)"
  shows "verify_inn pos rq sv
           = (Inr \<lparr>code = cd, body = Result res\<rparr>,
              \<lparr>cache_state = cache_set (cache_state sv) (settled rq) (JStr s) res,
               upstream_calls = upstream_calls sv @ [JStr s]\<rparr>)"
proof -
  have "verify_inn_finish pos (settled rq) (inn rq) (fetched rq) (cache_state sv)
          = (\<lparr>code = cd, body = Result res\<rparr>, cache_set (cache_state sv) (settled rq) (inn rq) res)"
    using got by (simp add: finish_ok)
  from verify_inn_miss [OF _ _ _ this] valid k miss show ?thesis
    by (simp add: test_inn_JStr truthy_digits del: truthy.simps)
qed

lemma cache_has_after_set:
  "same_key k k \<Longrightarrow> t - now < ttl c \<Longrightarrow> cache_has (cache_set c now k v) t k"
  by (simp add: cache_has_def lookup_cache_set_same fresh_def)

text \<open>
  Two calls for the same valid identifier, one after the other: the first misses the
  cache and gets an answer from the provider, the second arrives before the stored
  result expires.
\<close>

lemma two_calls:
  assumes valid: "digits_10_or_12 s" and k1: "inn rq1 = JStr s" and k2: "inn rq2 = JStr s"
    and miss: "\<not> cache_has (cache_state sv) (arrival rq1) (JStr s)"
    and got: "fetched rq1 = Inr r" "response_ok r" "up_json r = Inr data"
      "normalize_data pos data = Inr (cd, res)"
    and order: "settled rq1 \<le> arrival rq2"
    and window: "arrival rq2 - settled rq1 < ttl (cache_state sv)"
  shows "fst (verify_inn pos rq1 sv) = Inr \<lparr>code = cd, body = Result res\<rparr>
       \<and> upstream_calls (snd (verify_inn pos rq1 sv)) = upstream_calls sv @ [JStr s]
       \<and> fst (verify_inn_start (arrival rq2) (JStr s) (cache_state (snd (verify_inn pos rq1 sv))))
           = Done \<lparr>code = 200, body = Result res\<rparr>
       \<and> fst (verify_inn pos rq2 (snd (verify_inn pos rq1 sv))) = Inr \<lparr>code = 200, body = Result res\<rparr>
       \<and> upstream_calls (snd (verify_inn pos rq2 (snd (verify_inn pos rq1 sv))))
           = upstream_calls sv @ [JStr s]"
proof -
  let ?c1 = "cache_set (cache_state sv) (settled rq1) (JStr s) res"
  have first: "verify_inn pos rq1 sv
           = (Inr \<lparr>code = cd, body = Result res\<rparr>,
              \<lparr>cache_state = ?c1, upstream_calls = upstream_calls sv @ [JStr s]\<rparr>)"
    by (rule verify_inn_answered [OF valid k1 miss got])
  have v: "truthy (JStr s)" "test_inn (JStr s) = Inr True"
    using valid by (simp_all add: test_inn_JStr truthy_digits del: truthy.simps)
  have hit: "cache_has ?c1 (arrival rq2) (JStr s)"
    using window by (simp add: cache_has_after_set)
  from start_valid_hit [OF v hit] obtain e where
    e: "lookup (entries ?c1) (JStr s) = Some e"
    and st: "verify_inn_start (arrival rq2) (JStr s) ?c1 =
               (Done \<lparr>code = 200, body = Result (fst (snd e))\<rparr>,
                ?c1\<lparr>entries := e # remove_key (JStr s) (entries ?c1)\<rparr>)" by blast
  from e have "e = (JStr s, res, settled rq1)" by (simp add: lookup_cache_set_same)
  with st have st': "verify_inn_start (arrival rq2) (JStr s) ?c1 =
               (Done \<lparr>code = 200, body = Result res\<rparr>,
                ?c1\<lparr>entries := (JStr s, res, settled rq1) # remove_key (JStr s) (entries ?c1)\<rparr>)"
    by simp
  then have second: "verify_inn pos rq2
         \<lparr>cache_state = ?c1, upstream_calls = upstream_calls sv @ [JStr s]\<rparr>
      = (Inr \<lparr>code = 200, body = Result res\<rparr>,
         \<lparr>cache_state = ?c1\<lparr>entries := (JStr s, res, settled rq1) # remove_key (JStr s) (entries ?c1)\<rparr>,
          upstream_calls = upstream_calls sv @ [JStr s]\<rparr>)"
    by (simp add: verify_inn_def k2)
  show ?thesis
    unfolding first by (simp add: second st' del: cache_set_fields)
qed

lemma sample_valid: "digits_10_or_12 ''7700000000''"
  by (simp add: digits_10_or_12_def is_digit_def)

lemma sample_miss: "\<not> cache_has cache t k"
  by (simp add: cache_def LRUCache_def cache_has_def lookup_def)

lemma sample_request_simps [simp]:
  "inn (sample_request t f) = JStr ''7700000000''" "arrival (sample_request t f) = t"
  "settled (sample_request t f) = t + 5" "fetched (sample_request t f) = f"
  by (simp_all add: sample_request_def)

lemma sample_server_simps [simp]:
  "cache_state sample_server = cache" "upstream_calls sample_server = []"
  "ttl cache = 3600000" "max_opt cache = 100" "entries cache = []"
  by (simp_all add: sample_server_def cache_def LRUCache_def)

text \<open>
  Neither part of the handler changes what is stored under a key other than its own.
\<close>

lemma start_lookup_other:
  "k' \<noteq> k \<Longrightarrow> lookup (entries (snd (verify_inn_start now k c))) k' = lookup (entries c) k'"
  by (auto simp: verify_inn_start_def lookup_cache_get_other
           split: prod.splits option.splits sum.splits
           dest: lookup_cache_get_other [of k' k c now, unfolded snd_def])

lemma start_snd:
  "snd (verify_inn_start now k c) = c \<or> snd (verify_inn_start now k c) = snd (cache_get c now k)"
  by (auto simp: verify_inn_start_def split: prod.splits option.splits sum.splits)

lemma finish_snd:
  "snd (verify_inn_finish pos now k f c) = c
   \<or> (\<exists>res. snd (verify_inn_finish pos now k f c) = cache_set c now k res)"
  using finish_cases [of pos now k f c "fst (verify_inn_finish pos now k f c)"
      "snd (verify_inn_finish pos now k f c)"]
  by auto

lemma finish_lookup_other:
  assumes "k' \<noteq> k"
  shows "lookup (entries (snd (verify_inn_finish pos now k f c))) k' = None
       \<or> lookup (entries (snd (verify_inn_finish pos now k f c))) k' = lookup (entries c) k'"
proof -
  from finish_snd [of pos now k f c] show ?thesis
  proof
    assume "snd (verify_inn_finish pos now k f c) = c"
    then show ?thesis by simp
  next
    assume "\<exists>res. snd (verify_inn_finish pos now k f c) = cache_set c now k res"
    then obtain res where "snd (verify_inn_finish pos now k f c) = cache_set c now k res" ..
    with lookup_cache_set_other [OF assms, of c now res] show ?thesis by simp
  qed
qed

lemma start_set: "set (entries (snd (verify_inn_start now k c))) \<subseteq> set (entries c)"
  using start_snd [of now k c] set_cache_get [of c now k] by auto

lemma finish_set:
  assumes "e \<in> set (entries (snd (verify_inn_finish pos now k f c)))"
  shows "e \<in> set (entries c) \<or> (\<exists>res. e = (k, res, now))"
proof -
  from finish_snd [of pos now k f c] show ?thesis
  proof
    assume "snd (verify_inn_finish pos now k f c) = c"
    with assms show ?thesis by simp
  next
    assume "\<exists>res. snd (verify_inn_finish pos now k f c) = cache_set c now k res"
    then obtain res where "snd (verify_inn_finish pos now k f c) = cache_set c now k res" ..
    with assms set_cache_set [of c now k res] show ?thesis by auto
  qed
qed

lemma verify_inn_cache:
  "cache_state (snd (verify_inn pos rq sv)) = snd (verify_inn_start (arrival rq) (inn rq) (cache_state sv))
   \<or> cache_state (snd (verify_inn pos rq sv))
       = snd (verify_inn_finish pos (settled rq) (inn rq) (fetched rq) (cache_state sv))
       \<and> snd (verify_inn_start (arrival rq) (inn rq) (cache_state sv)) = cache_state sv"
  by (auto simp: verify_inn_def verify_inn_start_def
           split: prod.splits pending.splits option.splits sum.splits)

text \<open>
  The same holds along any history in which no event concerns the key, whatever the
  interleaving of the requests.
\<close>

lemma step_lookup_other:
  "k' \<noteq> event_key ev \<Longrightarrow>
     lookup (entries (step pos ev c)) k' = None
     \<or> lookup (entries (step pos ev c)) k' = lookup (entries c) k'"
  by (cases ev) (auto simp: start_lookup_other dest: finish_lookup_other)

lemma run_lookup_other:
  "\<forall>ev \<in> set evs. event_key ev \<noteq> k' \<Longrightarrow>
     lookup (entries (run pos evs c)) k' = None
     \<or> lookup (entries (run pos evs c)) k' = lookup (entries c) k'"
proof (induction evs arbitrary: c)
  case Nil
  then show ?case by simp
next
  case (Cons ev evs)
  then have "k' \<noteq> event_key ev" by auto
  from step_lookup_other [OF this, of pos c] Cons.IH [of "step pos ev c"] Cons.prems
  show ?case by auto
qed

text \<open>
  The size of the cache stays within the capacity.
\<close>

lemma length_remove_key_less:
  "lookup es k = Some e \<Longrightarrow> length (remove_key k es) < length es"
  unfolding remove_key_def
  by (rule length_filter_less [of e]) (auto dest: lookup_Some_mem)

lemma cache_set_length:
  assumes "length (entries c) \<le> max_opt c" and "0 < max_opt c"
  shows "length (entries (cache_set c now k v)) \<le> max_opt c"
proof (cases "lookup (entries c) k")
  case (Some e)
  from length_remove_key_less [OF Some] assms Some show ?thesis
    by (simp add: cache_set_def)
next
  case None
  with assms show ?thesis
    by (cases "entries c") (auto simp: cache_set_def)
qed

lemma cache_get_length:
  "length (entries (snd (cache_get c now k))) \<le> length (entries c)"
proof (cases "lookup (entries c) k")
  case None
  then show ?thesis by (simp add: cache_get_def)
next
  case (Some e)
  from length_remove_key_less [OF Some] Some show ?thesis
    by (simp add: cache_get_def)
qed

lemma step_ok:
  assumes "cache_ok m t c" and "0 < m"
  shows "cache_ok m t (step pos ev c)"
proof (cases ev)
  case (Arrive now k)
  from start_snd [of now k c] assms cache_get_length [of c now k] show ?thesis
    unfolding Arrive cache_ok_def by (auto simp: cache_get_fields)
next
  case (Settle now k f)
  from finish_snd [of pos now k f c] assms show ?thesis
    unfolding Settle cache_ok_def by (auto simp: cache_set_length)
qed

lemma run_ok: "cache_ok m t c \<Longrightarrow> 0 < m \<Longrightarrow> cache_ok m t (run pos evs c)"
  by (induction evs arbitrary: c) (simp_all add: step_ok)

lemma cache_ok_initial: "cache_ok 100 3600000 cache"
  by (simp add: cache_ok_def)

lemma expired_absent:
  "lookup (entries c) k = Some e \<Longrightarrow> ttl c \<le> now - snd (snd e) \<Longrightarrow>
     \<not> cache_has c now k \<and> fst (cache_get c now k) = None"
  by (simp add: cache_has_def cache_get_def fresh_def)

text \<open>
  The scenario of the specification: with capacity 2, insert A and B, touch A, insert C.
  B is evicted, not A.
\<close>

lemma lru_scenario:
  "map fst (entries (cache_set (snd (cache_get (cache_set (cache_set (LRUCache 2 1000) 0 (JStr ''A'') v)
       1 (JStr ''B'') v) 2 (JStr ''A''))) 3 (JStr ''C'') v)) = [JStr ''C'', JStr ''A'']"
  by (simp add: LRUCache_def cache_set_def cache_get_def lookup_def remove_key_def fresh_def)

text \<open>
  The history that stores results under \<open>n\<close> different keys fills the cache with
  \<open>n\<close> entries, the latest first.
\<close>

lemma run_append: "run pos (xs @ ys) c = run pos ys (run pos xs c)"
  by (induction xs arbitrary: c) simp_all

lemma lookup_None_iff: "lookup es k = None \<longleftrightarrow> (\<forall>e \<in> set es. \<not> same_key (fst e) k)"
  unfolding lookup_def find_None_iff by fastforce

lemma step_settle_empty:
  "step pos (Settle now k (sample_reply [])) c = cache_set c now k not_found_result"
  by (simp add: sample_reply_def finish_ok [OF response_ok_sample _ normalize_empty])

lemma run_fill:
  "n \<le> 100 \<Longrightarrow>
     entries (run pos (fill n) cache) = rev (map (\<lambda>i. (JNum (int i), not_found_result, i)) [0..<n])"
proof (induction n)
  case 0
  then show ?case by (simp add: fill_def)
next
  case (Suc n)
  let ?c = "run pos (fill n) cache"
  from Suc have es: "entries ?c = rev (map (\<lambda>i. (JNum (int i), not_found_result, i)) [0..<n])"
    by simp
  from run_ok [OF cache_ok_initial, of pos "fill n"] have m: "max_opt ?c = 100"
    by (simp add: cache_ok_def)
  have none: "lookup (entries ?c) (JNum (int n)) = None"
    unfolding lookup_None_iff es by auto
  have len: "length (entries ?c) = n" unfolding es by simp
  have "run pos (fill (Suc n)) cache = cache_set ?c n (JNum (int n)) not_found_result"
    by (simp add: fill_def run_append step_settle_empty del: step.simps)
  then show ?case
    using none len m Suc.prems es by (simp add: cache_set_def)
qed

section \<open>The claims\<close>

text \<open>
  Claim C1. Every verification result that the handler produces from a provider answer
  and sends to the caller has status \<^verbatim>\<open>success\<close> if and only if a company record is
  present and its state is \<^verbatim>\<open>active\<close>; if a company is present whose state is not
  \<^verbatim>\<open>active\<close>, the status is \<^verbatim>\<open>warning\<close> and the message is the one saying that the
  organization is not an active one; if the provider reports no candidate, the status is
  \<^verbatim>\<open>error\<close> and there is no company, and if it reports one, there is a company.
\<close>

theorem result_status_invariant:
  assumes "verify_inn_finish pos now k f c = (resp, c')" and "body resp = Result res"
  shows "(status res = ''success'' \<longleftrightarrow> (\<exists>co. company res = Some co \<and> state co = ''active''))
       \<and> (\<forall>co. company res = Some co \<and> state co \<noteq> ''active''
             \<longrightarrow> status res = ''warning'' \<and> message res = MsgNotActive)
       \<and> (\<forall>r data. f = Inr r \<and> up_json r = Inr data \<and> has_suggestions pos data = Inr False
             \<longrightarrow> status res = ''error'' \<and> company res = None)
       \<and> (\<forall>r data. f = Inr r \<and> up_json r = Inr data \<and> has_suggestions pos data = Inr True
             \<longrightarrow> company res \<noteq> None)
       \<and> (company res = None \<longrightarrow> status res = ''error'')"
proof -
  from finish_result [OF assms] obtain r data where
    f: "f = Inr r" and json: "up_json r = Inr data"
    and norm: "normalize_data pos data = Inr (code resp, res)" by blast
  from normalize_cases [OF norm] show ?thesis
  proof
    assume "has_suggestions pos data = Inr True \<and> code resp = 200 \<and>
            (\<exists>companyData co. first_candidate data = Inr companyData \<and>
               company_of companyData = Inr co \<and> res = found_result co)"
    then obtain co where "res = found_result co" and "has_suggestions pos data = Inr True" by blast
    with f json show ?thesis by (auto simp: found_result_status)
  next
    assume "has_suggestions pos data = Inr False \<and> code resp = 404 \<and> res = not_found_result"
    with f json show ?thesis by (auto simp: not_found_result_simps)
  qed
qed

text \<open>
  Claim C1 at the sample candidate in state \<^verbatim>\<open>LIQUIDATING\<close>: the result is a warning.
\<close>

theorem result_status_invariant_witness:
  "verify_inn_finish sample_pos 5 (JStr ''7700000000'')
      (sample_reply [JObj [(''data'', sample_party ''LIQUIDATING'')]]) cache
     = (\<lparr>code = 200, body = Result (found_result (sample_company ''liquidating''))\<rparr>,
        cache_set cache 5 (JStr ''7700000000'') (found_result (sample_company ''liquidating'')))
   \<and> company (found_result (sample_company ''liquidating'')) = Some (sample_company ''liquidating'')
   \<and> state (sample_company ''liquidating'') \<noteq> ''active''
   \<and> status (found_result (sample_company ''liquidating'')) = ''warning''
   \<and> message (found_result (sample_company ''liquidating'')) = MsgNotActive"
proof -
  have h: "verify_inn_finish sample_pos 5 (JStr ''7700000000'')
      (sample_reply [JObj [(''data'', sample_party ''LIQUIDATING'')]]) cache
     = (\<lparr>code = 200, body = Result (found_result (sample_company ''liquidating''))\<rparr>,
        cache_set cache 5 (JStr ''7700000000'') (found_result (sample_company ''liquidating'')))"
    unfolding sample_reply_def
    by (rule finish_ok [OF response_ok_sample _ normalize_sample]) simp
  have s: "state (sample_company ''liquidating'') \<noteq> ''active''"
    by (simp add: sample_company_def)
  from result_status_invariant [OF h] s h show ?thesis
    by (simp add: found_result_status)
qed

text \<open>
  Claim C2. For a valid identifier, after a call that missed the cache and received a
  provider answer (candidate found or not), a second call for the same identifier that
  arrives before the TTL has elapsed is answered by the first part of the handler alone,
  with the cached result: the provider is not called and nothing is normalized, and the
  log of upstream calls holds exactly one call for the two requests.
\<close>

theorem second_call_served_from_cache:
  assumes "digits_10_or_12 s" and "inn rq1 = JStr s" and "inn rq2 = JStr s"
    and "\<not> cache_has (cache_state sv) (arrival rq1) (JStr s)"
    and "fetched rq1 = Inr r" and "response_ok r" and "up_json r = Inr data"
    and "normalize_data pos data = Inr (cd, res)"
    and "settled rq1 \<le> arrival rq2"
    and "arrival rq2 - settled rq1 < ttl (cache_state sv)"
  shows "fst (verify_inn pos rq1 sv) = Inr \<lparr>code = cd, body = Result res\<rparr>
       \<and> upstream_calls (snd (verify_inn pos rq1 sv)) = upstream_calls sv @ [JStr s]
       \<and> fst (verify_inn_start (arrival rq2) (JStr s) (cache_state (snd (verify_inn pos rq1 sv))))
           = Done \<lparr>code = 200, body = Result res\<rparr>
       \<and> fst (verify_inn pos rq2 (snd (verify_inn pos rq1 sv))) = Inr \<lparr>code = 200, body = Result res\<rparr>
       \<and> upstream_calls (snd (verify_inn pos rq2 (snd (verify_inn pos rq1 sv))))
           = upstream_calls sv @ [JStr s]"
  by (rule two_calls [OF assms])

text \<open>
  Claim C2 at the sample request: the provider finds nothing on the first call and is
  unreachable at the time of the second, which is answered from the cache all the same.
\<close>

theorem second_call_served_from_cache_witness:
  "digits_10_or_12 ''7700000000''
   \<and> \<not> cache_has (cache_state sample_server) 0 (JStr ''7700000000'')
   \<and> fst (verify_inn sample_pos (sample_request 0 (sample_reply [])) sample_server)
       = Inr \<lparr>code = 404, body = Result not_found_result\<rparr>
   \<and> fst (verify_inn sample_pos (sample_request 10 (Inl (Rejected ''down'')))
            (snd (verify_inn sample_pos (sample_request 0 (sample_reply [])) sample_server)))
       = Inr \<lparr>code = 200, body = Result not_found_result\<rparr>
   \<and> upstream_calls (snd (verify_inn sample_pos (sample_request 10 (Inl (Rejected ''down'')))
            (snd (verify_inn sample_pos (sample_request 0 (sample_reply [])) sample_server))))
       = [JStr ''7700000000'']"
  using second_call_served_from_cache [of "''7700000000''" "sample_request 0 (sample_reply [])"
      "sample_request 10 (Inl (Rejected ''down''))" sample_server
      "\<lparr>up_status = 200, up_text = Inr [], up_json = Inr (JObj [(''suggestions'', JArr [])])\<rparr>"
      "JObj [(''suggestions'', JArr [])]" sample_pos 404 not_found_result]
  by (simp add: sample_valid sample_miss sample_reply_def response_ok_sample normalize_empty)

text \<open>
  Claim C3 says that a request for a valid identifier without candidates is answered with
  status code 404 also when it is served from the cache. The handler does so on the
  first request only: the repeated request takes the branch \<^verbatim>\<open>res.json(cache.get(inn))\<close>,
  which sets no status code, and is answered with 200 and the same body.
\<close>

theorem cached_not_found_answered_200:
  "fst (verify_inn pos (sample_request 0 (sample_reply [])) sample_server)
       = Inr \<lparr>code = 404, body = Result not_found_result\<rparr>
   \<and> fst (verify_inn pos (sample_request 10 (sample_reply []))
            (snd (verify_inn pos (sample_request 0 (sample_reply [])) sample_server)))
       = Inr \<lparr>code = 200, body = Result not_found_result\<rparr>"
  using two_calls [of "''7700000000''" "sample_request 0 (sample_reply [])"
      "sample_request 10 (sample_reply [])" sample_server
      "\<lparr>up_status = 200, up_text = Inr [], up_json = Inr (JObj [(''suggestions'', JArr [])])\<rparr>"
      "JObj [(''suggestions'', JArr [])]" pos 404 not_found_result]
  by (simp add: sample_valid sample_miss sample_reply_def response_ok_sample normalize_empty)

text \<open>
  Claim C4 says that an input is accepted exactly when it matches after trimming
  whitespace. The handler does not trim: the identifier with a leading blank matches
  after trimming and is rejected with 400.
\<close>

theorem trimmed_identifier_counterexample:
  "spec_validate '' 7700000000''
   \<and> fst (verify_inn_start 0 (JStr '' 7700000000'') cache)
       = Done \<lparr>code = 400, body = Message MsgInnFormat\<rparr>"
  by (simp add: spec_validate_def trim_def is_space_def digits_10_or_12_def is_digit_def
      verify_inn_start_def test_inn_JStr)

text \<open>
  Claim C4, amended. For every input string, the handler rejects it with a 400 response
  exactly when the string itself, untrimmed, does not consist of 10 or of 12 digits; a
  rejected request leaves the server state as it was: no cache access, no upstream
  call, no cache entry.
\<close>

theorem validation_without_trim:
  "((\<exists>m. fst (verify_inn_start now (JStr s) c) = Done \<lparr>code = 400, body = Message m\<rparr>)
      \<longleftrightarrow> \<not> digits_10_or_12 s)
   \<and> (\<not> digits_10_or_12 s \<and> inn rq = JStr s
        \<longrightarrow> (\<exists>m. verify_inn pos rq sv = (Inr \<lparr>code = 400, body = Message m\<rparr>, sv)))"
proof (intro conjI impI)
  show "(\<exists>m. fst (verify_inn_start now (JStr s) c) = Done \<lparr>code = 400, body = Message m\<rparr>)
      \<longleftrightarrow> \<not> digits_10_or_12 s"
  proof (cases "digits_10_or_12 s")
    case False
    then show ?thesis by (simp add: start_invalid)
  next
    case True
    then have v: "truthy (JStr s)" "test_inn (JStr s) = Inr True"
      by (simp_all add: truthy_digits test_inn_JStr del: truthy.simps)
    show ?thesis
    proof (cases "cache_has c now (JStr s)")
      case False
      with True start_valid_miss [OF v] show ?thesis by simp
    next
      case hit: True
      from start_valid_hit [OF v hit] True show ?thesis by auto
    qed
  qed
next
  assume "\<not> digits_10_or_12 s \<and> inn rq = JStr s"
  then show "\<exists>m. verify_inn pos rq sv = (Inr \<lparr>code = 400, body = Message m\<rparr>, sv)"
    by (simp add: verify_inn_def start_invalid)
qed

text \<open>
  Claim C4, amended, at the input \<^verbatim>\<open>123\<close>.
\<close>

theorem validation_without_trim_witness:
  "\<not> digits_10_or_12 ''123''
   \<and> verify_inn sample_pos
        \<lparr>inn = JStr ''123'', arrival = 0, settled = 1, fetched = sample_reply []\<rparr>
        \<lparr>cache_state = cache, upstream_calls = []\<rparr>
       = (Inr \<lparr>code = 400, body = Message MsgInnFormat\<rparr>,
          \<lparr>cache_state = cache, upstream_calls = []\<rparr>)"
  using validation_without_trim [of 0 "''123''" cache
      "\<lparr>inn = JStr ''123'', arrival = 0, settled = 1, fetched = sample_reply []\<rparr>"
      sample_pos "\<lparr>cache_state = cache, upstream_calls = []\<rparr>"]
  by (simp add: digits_10_or_12_def verify_inn_def start_invalid)

text \<open>
  Claim C5 says that every transport failure is surfaced as a response of the 5xx class.
  When the provider answers 403, the handler passes that status on. And a body that is
  JSON but not shaped as the provider's answer, such as \<^verbatim>\<open>{}\<close>, is no failure to the
  handler at all: it is answered 404 and stored as not found, so that the malformed body
  of the claim can only be a body that is not JSON.
\<close>

theorem upstream_status_passed_through_counterexample:
  "digits_10_or_12 ''7700000000''
   \<and> \<not> cache_has cache 0 (JStr ''7700000000'')
   \<and> \<not> response_ok
         \<lparr>up_status = 403, up_text = Inr ''Forbidden'', up_json = Inl (Rejected ''not JSON'')\<rparr>
   \<and> fst (verify_inn sample_pos
        (sample_request 0
           (Inr \<lparr>up_status = 403, up_text = Inr ''Forbidden'', up_json = Inl (Rejected ''not JSON'')\<rparr>))
        sample_server)
       = Inr \<lparr>code = 403, body = MessageDetails MsgUpstream (UpstreamText ''Forbidden'')\<rparr>
   \<and> \<not> (500::nat) \<le> 403
   \<and> verify_inn sample_pos
        (sample_request 0 (Inr \<lparr>up_status = 200, up_text = Inr ''{}'', up_json = Inr (JObj [])\<rparr>))
        sample_server
       = (Inr \<lparr>code = 404, body = Result not_found_result\<rparr>,
          \<lparr>cache_state = cache_set cache 5 (JStr ''7700000000'') not_found_result,
           upstream_calls = [JStr ''7700000000'']\<rparr>)"
  by (simp add: response_ok_def verify_inn_def verify_inn_start_def
      verify_inn_finish_def try_block_def test_inn_JStr sample_valid sample_miss
      has_suggestions_def)

text \<open>
  Claim C5, amended. For a valid identifier that misses the cache, when the upstream call
  fails (network error, a status outside \<open>200..299\<close>, or a body that is not JSON), nothing
  is stored: the cache is left as it was, and the one upstream call is logged. The
  failure is surfaced with detail attached: under the provider's own status code, with
  the text of its answer, when the provider answered with a status outside \<open>200..299\<close>
  and that text could be read; under status 500, with the message of the error, in every
  other case (the call is rejected, the text of such an answer cannot be read, or the
  body is not JSON). Any later call for the identifier misses the cache again and goes to
  the provider, so that the log then holds two calls.
\<close>

theorem transport_failure_not_cached:
  assumes valid: "digits_10_or_12 s" and k: "inn rq = JStr s"
    and miss: "\<not> cache_has (cache_state sv) (arrival rq) (JStr s)"
    and fail: "transport_failure (fetched rq)"
  shows "snd (verify_inn pos rq sv)
           = \<lparr>cache_state = cache_state sv, upstream_calls = upstream_calls sv @ [JStr s]\<rparr>
       \<and> (\<forall>e. fetched rq = Inl e
             \<longrightarrow> fst (verify_inn pos rq sv)
                   = Inr \<lparr>code = 500, body = MessageDetails MsgInternal (ErrorMessage e)\<rparr>)
       \<and> (\<forall>r t. fetched rq = Inr r \<and> \<not> response_ok r \<and> up_text r = Inr t
             \<longrightarrow> fst (verify_inn pos rq sv)
                   = Inr \<lparr>code = up_status r, body = MessageDetails MsgUpstream (UpstreamText t)\<rparr>)
       \<and> (\<forall>r e. fetched rq = Inr r \<and> \<not> response_ok r \<and> up_text r = Inl e
             \<longrightarrow> fst (verify_inn pos rq sv)
                   = Inr \<lparr>code = 500, body = MessageDetails MsgInternal (ErrorMessage e)\<rparr>)
       \<and> (\<forall>r e. fetched rq = Inr r \<and> response_ok r \<and> up_json r = Inl e
             \<longrightarrow> fst (verify_inn pos rq sv)
                   = Inr \<lparr>code = 500, body = MessageDetails MsgInternal (ErrorMessage e)\<rparr>)
       \<and> (\<forall>t. arrival rq \<le> t
             \<longrightarrow> verify_inn_start t (JStr s) (cache_state (snd (verify_inn pos rq sv)))
                   = (Await (JStr s), cache_state sv))
       \<and> (\<forall>rq2. inn rq2 = JStr s \<and> arrival rq \<le> arrival rq2
             \<longrightarrow> upstream_calls (snd (verify_inn pos rq2 (snd (verify_inn pos rq sv))))
                   = upstream_calls sv @ [JStr s, JStr s])"
proof -
  let ?F = "verify_inn_finish pos (settled rq) (inn rq) (fetched rq) (cache_state sv)"
  have v: "truthy (JStr s)" "test_inn (JStr s) = Inr True"
    using valid by (simp_all add: test_inn_JStr truthy_digits del: truthy.simps)
  have "?F = (fst ?F, snd ?F)" by simp
  from verify_inn_miss [OF _ _ _ this] v k miss
  have "verify_inn pos rq sv
          = (Inr (fst ?F), \<lparr>cache_state = snd ?F, upstream_calls = upstream_calls sv @ [JStr s]\<rparr>)"
    by simp
  then have run: "verify_inn pos rq sv
          = (Inr (fst ?F),
             \<lparr>cache_state = cache_state sv, upstream_calls = upstream_calls sv @ [JStr s]\<rparr>)"
    by (simp add: finish_transport_failure [OF fail])
  have rejected: "\<forall>e. fetched rq = Inl e
             \<longrightarrow> fst (verify_inn pos rq sv)
                   = Inr \<lparr>code = 500, body = MessageDetails MsgInternal (ErrorMessage e)\<rparr>"
    by (simp add: run finish_rejected)
  have passed: "\<forall>r t. fetched rq = Inr r \<and> \<not> response_ok r \<and> up_text r = Inr t
             \<longrightarrow> fst (verify_inn pos rq sv)
                   = Inr \<lparr>code = up_status r, body = MessageDetails MsgUpstream (UpstreamText t)\<rparr>"
    by (simp add: run finish_not_ok)
  have unread: "\<forall>r e. fetched rq = Inr r \<and> \<not> response_ok r \<and> up_text r = Inl e
             \<longrightarrow> fst (verify_inn pos rq sv)
                   = Inr \<lparr>code = 500, body = MessageDetails MsgInternal (ErrorMessage e)\<rparr>"
    by (simp add: run finish_not_ok)
  have not_json: "\<forall>r e. fetched rq = Inr r \<and> response_ok r \<and> up_json r = Inl e
             \<longrightarrow> fst (verify_inn pos rq sv)
                   = Inr \<lparr>code = 500, body = MessageDetails MsgInternal (ErrorMessage e)\<rparr>"
    by (simp add: run finish_not_json)
  have again: "\<forall>t. arrival rq \<le> t
             \<longrightarrow> verify_inn_start t (JStr s) (cache_state sv) = (Await (JStr s), cache_state sv)"
    using v cache_has_antimono [OF miss] by (simp add: start_valid_miss)
  have later: "\<forall>rq2. inn rq2 = JStr s \<and> arrival rq \<le> arrival rq2
             \<longrightarrow> upstream_calls (snd (verify_inn pos rq2
                     \<lparr>cache_state = cache_state sv, upstream_calls = upstream_calls sv @ [JStr s]\<rparr>))
                   = upstream_calls sv @ [JStr s, JStr s]"
  proof (intro allI impI)
    fix rq2 :: request
    assume a: "inn rq2 = JStr s \<and> arrival rq \<le> arrival rq2"
    let ?sv1 = "\<lparr>cache_state = cache_state sv, upstream_calls = upstream_calls sv @ [JStr s]\<rparr>"
    let ?G = "verify_inn_finish pos (settled rq2) (inn rq2) (fetched rq2) (cache_state ?sv1)"
    have m2: "\<not> cache_has (cache_state ?sv1) (arrival rq2) (inn rq2)"
      using a cache_has_antimono [OF miss, of "arrival rq2"] by simp
    have "?G = (fst ?G, snd ?G)" by simp
    from verify_inn_miss [OF _ _ m2 this] v a
    show "upstream_calls (snd (verify_inn pos rq2 ?sv1)) = upstream_calls sv @ [JStr s, JStr s]"
      by simp
  qed
  from rejected passed unread not_json again later show ?thesis
    unfolding run by simp
qed

text \<open>
  Claim C5, amended, at the sample request: with an unreachable provider the answer is
  500 and the cache stays empty, and a second request five minutes later calls the
  provider again.
\<close>

theorem transport_failure_not_cached_witness:
  "digits_10_or_12 ''7700000000''
   \<and> \<not> cache_has (cache_state sample_server) 0 (JStr ''7700000000'')
   \<and> transport_failure (Inl (Rejected ''down''))
   \<and> verify_inn sample_pos (sample_request 0 (Inl (Rejected ''down''))) sample_server
       = (Inr \<lparr>code = 500, body = MessageDetails MsgInternal (ErrorMessage (Rejected ''down''))\<rparr>,
          \<lparr>cache_state = cache, upstream_calls = [JStr ''7700000000'']\<rparr>)
   \<and> upstream_calls (snd (verify_inn sample_pos (sample_request 300000 (sample_reply []))
        (snd (verify_inn sample_pos (sample_request 0 (Inl (Rejected ''down''))) sample_server))))
       = [JStr ''7700000000'', JStr ''7700000000'']"
proof -
  have f: "transport_failure (fetched (sample_request 0 (Inl (Rejected ''down''))))"
    by (simp add: transport_failure_def)
  have m: "\<not> cache_has (cache_state sample_server)
             (arrival (sample_request 0 (Inl (Rejected ''down'')))) (JStr ''7700000000'')"
    by (simp add: sample_miss)
  have i: "inn (sample_request 0 (Inl (Rejected ''down''))) = JStr ''7700000000''"
    by simp
  note t = transport_failure_not_cached [OF sample_valid i m f, of sample_pos]
  from t
  have a: "snd (verify_inn sample_pos (sample_request 0 (Inl (Rejected ''down''))) sample_server)
             = \<lparr>cache_state = cache, upstream_calls = [JStr ''7700000000'']\<rparr>"
    and b: "fst (verify_inn sample_pos (sample_request 0 (Inl (Rejected ''down''))) sample_server)
             = Inr \<lparr>code = 500, body = MessageDetails MsgInternal (ErrorMessage (Rejected ''down''))\<rparr>"
    by simp_all
  from t
  have "\<forall>rq2. inn rq2 = JStr ''7700000000''
           \<and> arrival (sample_request 0 (Inl (Rejected ''down''))) \<le> arrival rq2
         \<longrightarrow> upstream_calls (snd (verify_inn sample_pos rq2
               (snd (verify_inn sample_pos (sample_request 0 (Inl (Rejected ''down''))) sample_server))))
             = upstream_calls sample_server @ [JStr ''7700000000'', JStr ''7700000000'']"
    by blast
  from this [rule_format, of "sample_request 300000 (sample_reply [])"]
  have c: "upstream_calls (snd (verify_inn sample_pos (sample_request 300000 (sample_reply []))
        (snd (verify_inn sample_pos (sample_request 0 (Inl (Rejected ''down''))) sample_server))))
       = [JStr ''7700000000'', JStr ''7700000000'']"
    by simp
  from a b have "verify_inn sample_pos (sample_request 0 (Inl (Rejected ''down''))) sample_server
       = (Inr \<lparr>code = 500, body = MessageDetails MsgInternal (ErrorMessage (Rejected ''down''))\<rparr>,
          \<lparr>cache_state = cache, upstream_calls = [JStr ''7700000000'']\<rparr>)"
    by (simp add: prod_eq_iff)
  with c show ?thesis
    by (simp add: sample_valid sample_miss transport_failure_def)
qed

text \<open>
  Claim C6. After a call for a valid identifier that misses the cache and obtains a
  provider answer, the result is stored under the identifier, stamped with the time at
  which the call settled, whatever its status: the statement puts no condition on the
  result, so a negative result is stored like a positive one. It is visible to
  \<^verbatim>\<open>has\<close> for the length of the TTL.
\<close>

theorem result_always_cached:
  assumes valid: "digits_10_or_12 s" and k: "inn rq = JStr s"
    and miss: "\<not> cache_has (cache_state sv) (arrival rq) (JStr s)"
    and got: "fetched rq = Inr r" "response_ok r" "up_json r = Inr data"
      "normalize_data pos data = Inr (cd, res)"
  shows "fst (verify_inn pos rq sv) = Inr \<lparr>code = cd, body = Result res\<rparr>
       \<and> lookup (entries (cache_state (snd (verify_inn pos rq sv)))) (JStr s)
           = Some (JStr s, res, settled rq)
       \<and> (\<forall>t. t - settled rq < ttl (cache_state sv)
             \<longrightarrow> cache_has (cache_state (snd (verify_inn pos rq sv))) t (JStr s))"
  by (simp add: verify_inn_answered [OF assms] lookup_cache_set_same cache_has_after_set)

text \<open>
  Claim C6 at the sample request when the provider finds nothing: the result with status
  \<^verbatim>\<open>error\<close> is in the cache.
\<close>

theorem result_always_cached_witness:
  "digits_10_or_12 ''7700000000''
   \<and> \<not> cache_has (cache_state sample_server) 0 (JStr ''7700000000'')
   \<and> status not_found_result = ''error''
   \<and> lookup (entries (cache_state (snd (verify_inn sample_pos
         (sample_request 0 (sample_reply [])) sample_server)))) (JStr ''7700000000'')
       = Some (JStr ''7700000000'', not_found_result, 5)"
  using result_always_cached [of "''7700000000''" "sample_request 0 (sample_reply [])"
      sample_server
      "\<lparr>up_status = 200, up_text = Inr [], up_json = Inr (JObj [(''suggestions'', JArr [])])\<rparr>"
      "JObj [(''suggestions'', JArr [])]" sample_pos 404 not_found_result]
  by (simp add: sample_valid sample_miss sample_reply_def response_ok_sample normalize_empty
      not_found_result_simps)

text \<open>
  Claim C7. In every state the server's cache can reach, through any history of requests,
  the capacity is 100, the TTL one hour, and there are at most 100 entries. Putting a
  new key into the full cache evicts the last entry in order of recency and no other;
  below the capacity nothing is evicted; putting a key or hitting it with \<^verbatim>\<open>get\<close>
  makes its entry the first in order of recency, so the last one is the least recently
  used. An entry whose age has reached the TTL is absent for \<^verbatim>\<open>has\<close> and \<^verbatim>\<open>get\<close>.
\<close>

theorem cache_bounded_lru_ttl:
  assumes "c = run pos evs cache"
  shows "max_opt c = 100 \<and> ttl c = 3600000 \<and> length (entries c) \<le> 100
       \<and> (length (entries c) = 100 \<and> lookup (entries c) k = None
            \<longrightarrow> entries (cache_set c now k v) = (k, v, now) # butlast (entries c))
       \<and> (length (entries c) < 100 \<and> lookup (entries c) k = None
            \<longrightarrow> entries (cache_set c now k v) = (k, v, now) # entries c)
       \<and> (lookup (entries c) k \<noteq> None
            \<longrightarrow> entries (cache_set c now k v) = (k, v, now) # remove_key k (entries c))
       \<and> (cache_has c now k
            \<longrightarrow> (\<exists>e. lookup (entries c) k = Some e
                   \<and> cache_get c now k
                       = (Some (fst (snd e)), c\<lparr>entries := e # remove_key k (entries c)\<rparr>)))
       \<and> (\<forall>e. lookup (entries c) k = Some e \<and> 3600000 \<le> now - snd (snd e)
            \<longrightarrow> \<not> cache_has c now k \<and> fst (cache_get c now k) = None)"
proof -
  from run_ok [OF cache_ok_initial, of pos evs] assms
  have ok: "max_opt c = 100" "ttl c = 3600000" "length (entries c) \<le> 100"
    by (simp_all add: cache_ok_def)
  have evict: "length (entries c) = 100 \<and> lookup (entries c) k = None
            \<longrightarrow> entries (cache_set c now k v) = (k, v, now) # butlast (entries c)"
    using ok by (simp add: cache_set_def)
  have room: "length (entries c) < 100 \<and> lookup (entries c) k = None
            \<longrightarrow> entries (cache_set c now k v) = (k, v, now) # entries c"
    using ok by (simp add: cache_set_def)
  have over: "lookup (entries c) k \<noteq> None
            \<longrightarrow> entries (cache_set c now k v) = (k, v, now) # remove_key k (entries c)"
    by (auto simp: cache_set_def)
  have hit: "cache_has c now k
            \<longrightarrow> (\<exists>e. lookup (entries c) k = Some e
                   \<and> cache_get c now k
                       = (Some (fst (snd e)), c\<lparr>entries := e # remove_key k (entries c)\<rparr>))"
    using cache_has_get [of c now k] by blast
  have old: "\<forall>e. lookup (entries c) k = Some e \<and> 3600000 \<le> now - snd (snd e)
            \<longrightarrow> \<not> cache_has c now k \<and> fst (cache_get c now k) = None"
    using expired_absent [of c k _ now] ok by simp
  from ok evict room over hit old show ?thesis by blast
qed

text \<open>
  Claim C7 at the cache filled with the keys 0 to 99: putting the key 100 drops the last
  entry; and at the cache holding the key 0 put at time 0: one hour later it is absent.
\<close>

theorem cache_bounded_lru_ttl_witness:
  "length (entries (run sample_pos (fill 100) cache)) = 100
   \<and> lookup (entries (run sample_pos (fill 100) cache)) (JNum 100) = None
   \<and> entries (cache_set (run sample_pos (fill 100) cache) 100 (JNum 100) not_found_result)
       = (JNum 100, not_found_result, 100) # butlast (entries (run sample_pos (fill 100) cache))
   \<and> lookup (entries (run sample_pos (fill 1) cache)) (JNum 0) = Some (JNum 0, not_found_result, 0)
   \<and> \<not> cache_has (run sample_pos (fill 1) cache) 3600000 (JNum 0)"
proof -
  have len: "length (entries (run sample_pos (fill 100) cache)) = 100"
    by (simp add: run_fill)
  have none: "lookup (entries (run sample_pos (fill 100) cache)) (JNum 100) = None"
    unfolding lookup_None_iff by (auto simp: run_fill)
  have one: "lookup (entries (run sample_pos (fill 1) cache)) (JNum 0)
               = Some (JNum 0, not_found_result, 0)"
    by (simp add: run_fill lookup_def)
  from cache_bounded_lru_ttl [of "run sample_pos (fill 100) cache" sample_pos "fill 100"
      "JNum 100" 100 not_found_result] len none
  have a: "entries (cache_set (run sample_pos (fill 100) cache) 100 (JNum 100) not_found_result)
       = (JNum 100, not_found_result, 100) # butlast (entries (run sample_pos (fill 100) cache))"
    by simp
  from cache_bounded_lru_ttl [of "run sample_pos (fill 1) cache" sample_pos "fill 1"
      "JNum 0" 3600000 not_found_result] one
  have b: "\<not> cache_has (run sample_pos (fill 1) cache) 3600000 (JNum 0)"
    by simp
  from len none a one b show ?thesis by simp
qed

text \<open>
  Claim C8. For every candidate from which the handler builds a company, the name is the
  first non-empty value among \<^verbatim>\<open>full_with_opf\<close>, \<^verbatim>\<open>short_with_opf\<close>, \<^verbatim>\<open>full\<close> and
  \<^verbatim>\<open>short\<close> of the candidate's \<^verbatim>\<open>name\<close>, in this order; the registration number is
  \<^verbatim>\<open>ogrn\<close>, and \<^verbatim>\<open>ogrnip\<close> when \<^verbatim>\<open>ogrn\<close> is absent (or empty).
\<close>

theorem name_and_ogrn_resolution:
  assumes "company_of companyData = Inr co"
  shows "\<exists>nm. get_prop companyData ''name'' = Inr nm
           \<and> name co = first_non_empty [prop_of nm ''full_with_opf'', prop_of nm ''short_with_opf'',
                                          prop_of nm ''full'', prop_of nm ''short'']
           \<and> ogrn co = (if truthy (prop_of companyData ''ogrn'') then prop_of companyData ''ogrn''
                        else prop_of companyData ''ogrnip'')"
proof -
  from assms obtain v_name v_ogrn where
    n: "bnd (get_path companyData [''name'', ''full_with_opf'']) (\<lambda>a. js_or a
         (bnd (get_path companyData [''name'', ''short_with_opf'']) (\<lambda>b. js_or b
         (bnd (get_path companyData [''name'', ''full'']) (\<lambda>c. js_or c
         (get_path companyData [''name'', ''short'']))))))  = Inr v_name"
    and og: "bnd (get_prop companyData ''ogrn'') (\<lambda>a. js_or a
         (get_prop companyData ''ogrnip'')) = Inr v_ogrn"
    and co: "name co = v_name" "ogrn co = v_ogrn"
    unfolding company_of_def bnd_Inr_iff by auto
  from n obtain nm a where nm: "get_prop companyData ''name'' = Inr nm"
    and a: "get_prop nm ''full_with_opf'' = Inr a"
    unfolding get_path2 bnd_Inr_iff by auto
  from get_prop_total [OF a] obtain b c d where
    b: "get_prop nm ''short_with_opf'' = Inr b" and c: "get_prop nm ''full'' = Inr c"
    and d: "get_prop nm ''short'' = Inr d" by metis
  from n have "v_name = first_non_empty [a, b, c, d]"
    by (auto simp: get_path2 nm a b c d js_or_def first_non_empty_def split: if_splits)
  moreover from og obtain o1 where o1: "get_prop companyData ''ogrn'' = Inr o1"
    unfolding bnd_Inr_iff by auto
  from get_prop_total [OF o1] obtain o2 where o2: "get_prop companyData ''ogrnip'' = Inr o2" by metis
  from og have "v_ogrn = (if truthy o1 then o1 else o2)"
    by (auto simp: o1 o2 js_or_def split: if_splits)
  ultimately show ?thesis
    using nm co by (simp add: get_prop_prop_of a b c d o1 o2)
qed

text \<open>
  Claim C8 at the sample candidate, whose \<^verbatim>\<open>full_with_opf\<close> is \<^verbatim>\<open>null\<close> and which has
  no \<^verbatim>\<open>ogrn\<close>.
\<close>

theorem name_and_ogrn_resolution_witness:
  "company_of (sample_party ''LIQUIDATING'') = Inr (sample_company ''liquidating'')
   \<and> name (sample_company ''liquidating'') = JStr ''OOO Romashka''
   \<and> ogrn (sample_company ''liquidating'') = JStr ''304770000000017''"
  using name_and_ogrn_resolution [OF company_of_sample]
  by (simp add: company_of_sample sample_company_def)

text \<open>
  Claim C9. When the \<^verbatim>\<open>inn\<close> property is a number of 10 or of 12 decimal digits, the
  handler does not answer 400: it looks the number up in the cache and, on a miss,
  queries the provider with it; a result obtained is stored under the number as key.
\<close>

theorem numeric_inn_accepted:
  assumes "10 ^ 9 \<le> n \<and> n < 10 ^ 10 \<or> 10 ^ 11 \<le> n \<and> n < 10 ^ 12"
  shows "(\<forall>m. fst (verify_inn_start now (JNum n) c) \<noteq> Done \<lparr>code = 400, body = Message m\<rparr>)
       \<and> (\<not> cache_has c now (JNum n) \<longrightarrow> verify_inn_start now (JNum n) c = (Await (JNum n), c))
       \<and> (cache_has c now (JNum n) \<longrightarrow>
            (\<exists>e. lookup (entries c) (JNum n) = Some e
               \<and> fst (verify_inn_start now (JNum n) c)
                   = Done \<lparr>code = 200, body = Result (fst (snd e))\<rparr>))
       \<and> (\<forall>resp c' res. verify_inn_finish pos t (JNum n) f c = (resp, c') \<and> body resp = Result res
            \<longrightarrow> lookup (entries c') (JNum n) = Some (JNum n, res, t))"
proof -
  from nat_range_10 [OF assms] have v: "truthy (JNum n)" "test_inn (JNum n) = Inr True"
    by simp_all
  have stored: "\<forall>resp c' res. verify_inn_finish pos t (JNum n) f c = (resp, c') \<and> body resp = Result res
            \<longrightarrow> lookup (entries c') (JNum n) = Some (JNum n, res, t)"
    by (auto dest!: finish_result simp: lookup_cache_set_same)
  show ?thesis
  proof (cases "cache_has c now (JNum n)")
    case False
    with start_valid_miss [OF v False] stored show ?thesis by simp
  next
    case True
    from start_valid_hit [OF v True] True stored show ?thesis by auto
  qed
qed

text \<open>
  Claim C9 at the number 7700000000: it goes to the provider, and once a result is stored
  under the number, the text \<^verbatim>\<open>7700000000\<close> still misses the cache.
\<close>

theorem numeric_inn_accepted_witness:
  "(10::int) ^ 9 \<le> 7700000000 \<and> (7700000000::int) < 10 ^ 10
   \<and> verify_inn_start 0 (JNum 7700000000) cache = (Await (JNum 7700000000), cache)
   \<and> verify_inn_start 0 (JStr ''7700000000'') (cache_set cache 0 (JNum 7700000000) not_found_result)
       = (Await (JStr ''7700000000''), cache_set cache 0 (JNum 7700000000) not_found_result)"
proof -
  have "\<not> cache_has cache 0 (JNum 7700000000)"
    by (simp add: cache_has_def cache_def LRUCache_def lookup_def)
  with numeric_inn_accepted [of 7700000000 0 cache sample_pos 0 "sample_reply []"]
  have "verify_inn_start 0 (JNum 7700000000) cache = (Await (JNum 7700000000), cache)" by simp
  moreover have "verify_inn_start 0 (JStr ''7700000000'') (cache_set cache 0 (JNum 7700000000) not_found_result)
       = (Await (JStr ''7700000000''), cache_set cache 0 (JNum 7700000000) not_found_result)"
    by (rule start_valid_miss)
       (simp_all add: test_inn_JStr digits_10_or_12_def is_digit_def cache_has_def cache_set_def
          cache_def LRUCache_def lookup_def)
  ultimately show ?thesis by simp
qed

text \<open>
  Claim C10. Handling one request for the identifier \<open>k\<close> leaves what is stored under
  every other key as it was, or the key has become absent; every entry of the cache after
  the request is an entry from before or the one written for \<open>k\<close>.
\<close>

theorem other_keys_untouched:
  assumes "k' \<noteq> inn rq"
  shows "(lookup (entries (cache_state (snd (verify_inn pos rq sv)))) k' = None
          \<or> lookup (entries (cache_state (snd (verify_inn pos rq sv)))) k'
              = lookup (entries (cache_state sv)) k')
       \<and> (\<forall>e \<in> set (entries (cache_state (snd (verify_inn pos rq sv)))).
             e \<in> set (entries (cache_state sv)) \<or> (\<exists>res. e = (inn rq, res, settled rq)))"
proof -
  from verify_inn_cache [of pos rq sv] show ?thesis
  proof
    assume a: "cache_state (snd (verify_inn pos rq sv))
                 = snd (verify_inn_start (arrival rq) (inn rq) (cache_state sv))"
    show ?thesis
      unfolding a
      using start_lookup_other [OF assms, of "arrival rq" "cache_state sv"]
        start_set [of "arrival rq" "inn rq" "cache_state sv"] by blast
  next
    assume a: "cache_state (snd (verify_inn pos rq sv))
       = snd (verify_inn_finish pos (settled rq) (inn rq) (fetched rq) (cache_state sv))
       \<and> snd (verify_inn_start (arrival rq) (inn rq) (cache_state sv)) = cache_state sv"
    then have b: "cache_state (snd (verify_inn pos rq sv))
       = snd (verify_inn_finish pos (settled rq) (inn rq) (fetched rq) (cache_state sv))" by simp
    show ?thesis
      unfolding b
      using finish_lookup_other [OF assms, of pos "settled rq" "fetched rq" "cache_state sv"]
        finish_set [of _ pos "settled rq" "inn rq" "fetched rq" "cache_state sv"] by blast
  qed
qed

text \<open>
  Claim C10 at a cache holding a result for \<^verbatim>\<open>7800000000\<close> and a request for
  \<^verbatim>\<open>7700000000\<close>.
\<close>

theorem other_keys_untouched_witness:
  "JStr ''7800000000'' \<noteq> inn (sample_request 10 (sample_reply []))
   \<and> lookup (entries (cache_state (snd (verify_inn sample_pos (sample_request 10 (sample_reply []))
        \<lparr>cache_state = cache_set cache 0 (JStr ''7800000000'') not_found_result,
         upstream_calls = []\<rparr>)))) (JStr ''7800000000'')
      = Some (JStr ''7800000000'', not_found_result, 0)"
proof -
  have *: "lookup (entries (cache_state (snd (verify_inn sample_pos (sample_request 10 (sample_reply []))
        \<lparr>cache_state = cache_set cache 0 (JStr ''7800000000'') not_found_result,
         upstream_calls = []\<rparr>)))) (JStr ''7800000000'') \<noteq> None"
    by (simp add: verify_inn_def verify_inn_start_def test_inn_JStr sample_valid
        cache_has_def cache_set_def lookup_def verify_inn_finish_def try_block_def
        sample_reply_def response_ok_def has_suggestions_def)
  from other_keys_untouched [of "JStr ''7800000000''" "sample_request 10 (sample_reply [])"
      sample_pos "\<lparr>cache_state = cache_set cache 0 (JStr ''7800000000'') not_found_result,
         upstream_calls = []\<rparr>"] *
  show ?thesis
    by (simp add: lookup_cache_set_same)
qed

end
